theory Spec2Isabelle
  imports Main "HOL-Library.Word" "HOL-Library.Sublist"
begin

unbundle bit_operations_syntax

section \<open>Pattern matching and filtering\<close>

subsection \<open>The C library's \<open>fnmatch\<close>, as \<open>match_pattern\<close> calls it\<close>

text \<open>
  \<open>match_pattern\<close> is a one-line wrapper around the C library:
  \<^verbatim>\<open>return fnmatch(pattern, filename, 0) == 0;\<close>
  The library function is not part of the repository, so it is modelled from POSIX.1
  (\<open>fnmatch\<close> with \<open>flags = 0\<close>, C locale): \<open>*\<close> matches any run of
  characters, \<open>?\<close> one character, a backslash quotes the character after it
  (\<open>FNM_NOESCAPE\<close> is not set), and \<open>[...]\<close> is a bracket expression matching
  one character: literal members, ranges \<open>a-z\<close>, a leading \<open>!\<close> or \<open>^\<close> for
  the complement, a leading \<open>]\<close> as a member, and the named classes
  \<open>[:alpha:]\<close>, \<open>[:digit:]\<close>, ... With \<open>flags = 0\<close> neither a slash nor a
  leading period is special. An unterminated bracket makes \<open>[\<close> an ordinary
  character. Collating symbols \<open>[.x.]\<close> and equivalence classes \<open>[=x=]\<close> are
  outside the model: a bracket expression containing one is reported as invalid, and an
  invalid pattern does not match.
\<close>

definition code :: "char \<Rightarrow> nat" where
  "code c = of_char c"

definition in_range :: "char \<Rightarrow> char \<Rightarrow> char \<Rightarrow> bool" where
  "in_range lo hi c = (code lo \<le> code c \<and> code c \<le> code hi)"

definition is_upper :: "char \<Rightarrow> bool" where
  "is_upper c = in_range (CHR ''A'') (CHR ''Z'') c"

definition is_lower :: "char \<Rightarrow> bool" where
  "is_lower c = in_range (CHR ''a'') (CHR ''z'') c"

definition is_digit :: "char \<Rightarrow> bool" where
  "is_digit c = in_range (CHR ''0'') (CHR ''9'') c"

definition is_graph :: "char \<Rightarrow> bool" where
  "is_graph c = (33 \<le> code c \<and> code c \<le> 126)"

text \<open>The character classes of the C locale, by name; \<open>None\<close> for an unknown name.\<close>

definition char_class :: "string \<Rightarrow> (char \<Rightarrow> bool) option" where
  "char_class name =
     (if name = ''alpha'' then Some (\<lambda>c. is_upper c \<or> is_lower c)
      else if name = ''digit'' then Some is_digit
      else if name = ''alnum'' then Some (\<lambda>c. is_upper c \<or> is_lower c \<or> is_digit c)
      else if name = ''upper'' then Some is_upper
      else if name = ''lower'' then Some is_lower
      else if name = ''space'' then Some (\<lambda>c. code c = 32 \<or> (9 \<le> code c \<and> code c \<le> 13))
      else if name = ''blank'' then Some (\<lambda>c. code c = 32 \<or> code c = 9)
      else if name = ''punct'' then
        Some (\<lambda>c. is_graph c \<and> \<not> (is_upper c \<or> is_lower c \<or> is_digit c))
      else if name = ''print'' then Some (\<lambda>c. 32 \<le> code c \<and> code c \<le> 126)
      else if name = ''graph'' then Some is_graph
      else if name = ''cntrl'' then Some (\<lambda>c. code c < 32 \<or> code c = 127)
      else if name = ''xdigit'' then
        Some (\<lambda>c. is_digit c \<or> in_range (CHR ''A'') (CHR ''F'') c
                 \<or> in_range (CHR ''a'') (CHR ''f'') c)
      else None)"

datatype bracket_result = Unterminated | Invalid | Matched bool string

text \<open>
  The members of a bracket expression, read from the pattern text that follows the
  opening \<open>[\<close> (and the complement sign and a leading \<open>]\<close>, which \<open>bracket\<close>
  below deals with). \<open>found\<close> records whether a member seen so far contains the
  character \<open>c\<close>; the result carries the pattern text after the closing \<open>]\<close>.
\<close>

text \<open>One pattern character, with the backslash quoting the character after it.\<close>

fun read_char :: "string \<Rightarrow> (char \<times> string) option" where
  "read_char [] = None"
| "read_char (x # p) =
     (if x = CHR 0x5C then (case p of [] \<Rightarrow> None | e # q \<Rightarrow> Some (e, q))
      else Some (x, p))"

lemma read_char_shorter: "read_char s = Some (e, q) \<Longrightarrow> length q < length s"
  by (cases s) (auto split: if_splits list.splits)

function bracket_members :: "string \<Rightarrow> char \<Rightarrow> bool \<Rightarrow> bracket_result" where
  "bracket_members [] c found = Unterminated"
| "bracket_members (x # p) c found =
     (if x = CHR '']'' then Matched found p
      else if x = CHR ''['' \<and> p \<noteq> [] \<and> hd p \<in> {CHR ''.'', CHR ''=''} then Invalid
      else if x = CHR ''['' \<and> p \<noteq> [] \<and> hd p = CHR '':''
              \<and> take 2 (dropWhile (\<lambda>y. y \<noteq> CHR '':'') (tl p)) = '':]'' then
        (case char_class (takeWhile (\<lambda>y. y \<noteq> CHR '':'') (tl p)) of
           None \<Rightarrow> Invalid
         | Some cls \<Rightarrow>
             bracket_members (drop 2 (dropWhile (\<lambda>y. y \<noteq> CHR '':'') (tl p))) c
               (found \<or> cls c))
      else
        (case read_char (x # p) of
           None \<Rightarrow> Unterminated
         | Some (lo, q) \<Rightarrow>
             if take 1 q = ''-'' \<and> drop 1 q \<noteq> [] \<and> take 1 (drop 1 q) \<noteq> '']'' then
               (case read_char (drop 1 q) of
                  None \<Rightarrow> Unterminated
                | Some (hi, r) \<Rightarrow> bracket_members r c (found \<or> in_range lo hi c))
             else bracket_members q c (found \<or> c = lo)))"
  by pat_completeness auto
termination
proof (relation "measure (\<lambda>(p, c, found). length p)", goal_cases)
  case (2 x p c found cls)
  have "length (dropWhile (\<lambda>y. y \<noteq> CHR '':'') (tl p)) \<le> length (tl p)"
    by (rule length_dropWhile_le)
  with 2 show ?case by (cases p) auto
next
  case (3 x p c found a lo q hi' hi r)
  from 3 have "length q < length (x # p)" "length r < length (drop 1 q)"
    by (auto dest: read_char_shorter simp del: read_char.simps)
  then show ?case by simp
next
  case (4 x p c found a lo q)
  then have "length q < length (x # p)"
    by (auto dest: read_char_shorter simp del: read_char.simps)
  then show ?case by simp
qed auto

lemma bracket_members_shorter:
  "bracket_members p c found = Matched b rest \<Longrightarrow> length rest < length p"
proof (induction p c found rule: bracket_members.induct)
  case (1 c found)
  then show ?case by simp
next
  case (2 x p c found)
  show ?case
  proof (cases "x = CHR '']''")
    case True
    with "2.prems" show ?thesis by simp
  next
    case nclose: False
    show ?thesis
    proof (cases "x = CHR ''['' \<and> p \<noteq> [] \<and> hd p \<in> {CHR ''.'', CHR ''=''}")
      case True
      with "2.prems" nclose show ?thesis by simp
    next
      case ninv: False
      show ?thesis
      proof (cases "x = CHR ''['' \<and> p \<noteq> [] \<and> hd p = CHR '':''
              \<and> take 2 (dropWhile (\<lambda>y. y \<noteq> CHR '':'') (tl p)) = '':]''")
        case True
        then obtain cls where cls: "char_class (takeWhile (\<lambda>y. y \<noteq> CHR '':'') (tl p)) = Some cls"
          and rec: "bracket_members (drop 2 (dropWhile (\<lambda>y. y \<noteq> CHR '':'') (tl p))) c
               (found \<or> cls c) = Matched b rest"
          using "2.prems" nclose ninv by (auto split: option.splits)
        from "2.IH"(1)[OF nclose ninv True cls rec]
        have "length rest < length (drop 2 (dropWhile (\<lambda>y. y \<noteq> CHR '':'') (tl p)))" .
        moreover have "length (dropWhile (\<lambda>y. y \<noteq> CHR '':'') (tl p)) \<le> length (tl p)"
          by (rule length_dropWhile_le)
        ultimately show ?thesis by simp
      next
        case ncls: False
        from "2.prems" nclose ninv ncls obtain lo q where
          rc: "read_char (x # p) = Some (lo, q)"
          by (cases "read_char (x # p)") (auto simp del: read_char.simps)
        have lq: "length q < length (x # p)" using rc by (rule read_char_shorter)
        show ?thesis
        proof (cases "take 1 q = ''-'' \<and> drop 1 q \<noteq> [] \<and> take 1 (drop 1 q) \<noteq> '']''")
          case True
          from "2.prems" nclose ninv ncls rc True obtain hi r where
            rh: "read_char (drop 1 q) = Some (hi, r)"
            and rec: "bracket_members r c (found \<or> in_range lo hi c) = Matched b rest"
            by (cases "read_char (drop 1 q)") (auto simp del: read_char.simps)
          have "length rest < length r"
            using "2.IH"(2)[OF nclose ninv ncls rc refl True rh refl rec] .
          moreover have "length r < length (drop 1 q)" using rh by (rule read_char_shorter)
          ultimately show ?thesis using lq by simp
        next
          case False
          with "2.prems" nclose ninv ncls rc
          have rec: "bracket_members q c (found \<or> c = lo) = Matched b rest"
            by (auto simp del: read_char.simps)
          have "length rest < length q"
            using "2.IH"(3)[OF nclose ninv ncls rc refl False rec] .
          then show ?thesis using lq by simp
        qed
      qed
    qed
  qed
qed

text \<open>
  The bracket expression proper, from the text after \<open>[\<close>: an optional \<open>!\<close> or
  \<open>^\<close> complements the set, and a \<open>]\<close> that comes first is a member.
\<close>

definition bracket :: "string \<Rightarrow> char \<Rightarrow> bracket_result" where
  "bracket p c =
     (let neg = (p \<noteq> [] \<and> hd p \<in> {CHR ''!'', CHR ''^''});
          q = (if neg then tl p else p);
          r = (if q \<noteq> [] \<and> hd q = CHR '']'' then bracket_members (tl q) c (c = CHR '']'')
               else bracket_members q c False)
      in case r of
           Matched found rest \<Rightarrow> Matched (found \<noteq> neg) rest
         | other \<Rightarrow> other)"

lemma bracket_shorter:
  assumes "bracket p c = Matched b rest"
  shows "length rest < length p"
proof -
  from assms obtain q found f where m: "bracket_members q c found = Matched f rest"
    and q: "q = p \<or> q = tl p \<or> q = tl (tl p)"
    unfolding bracket_def Let_def
    by (auto split: bracket_result.splits if_splits simp del: bracket_members.simps)
  from q have "length q \<le> length p" by auto
  with bracket_members_shorter[OF m] show ?thesis by simp
qed

text \<open>
  \<open>fnmatch pattern string\<close> is true when the library call returns 0 (a match). A
  pattern that ends in an unquoted backslash does not match.
\<close>

function fnmatch :: "string \<Rightarrow> string \<Rightarrow> bool" where
  "fnmatch [] s = (s = [])"
| "fnmatch (c # p) s =
     (if c = CHR ''*'' then
        (fnmatch p s \<or> (case s of [] \<Rightarrow> False | x # s' \<Rightarrow> fnmatch (c # p) s'))
      else if c = CHR ''?'' then
        (case s of [] \<Rightarrow> False | x # s' \<Rightarrow> fnmatch p s')
      else if c = CHR 0x5C then
        (case p of
           [] \<Rightarrow> False
         | e # p' \<Rightarrow> (case s of [] \<Rightarrow> False | x # s' \<Rightarrow> x = e \<and> fnmatch p' s'))
      else if c = CHR ''['' then
        (case s of
           [] \<Rightarrow> False
         | x # s' \<Rightarrow>
             (case bracket p x of
                Unterminated \<Rightarrow> x = c \<and> fnmatch p s'
              | Invalid \<Rightarrow> False
              | Matched b rest \<Rightarrow> b \<and> fnmatch rest s'))
      else (case s of [] \<Rightarrow> False | x # s' \<Rightarrow> x = c \<and> fnmatch p s'))"
  by pat_completeness auto
termination
  by (relation "measure (\<lambda>(p, s). length p + length s)")
     (auto dest: bracket_shorter)

subsection \<open>\<open>match_pattern\<close> and \<open>should_copy_file\<close>\<close>

text \<open>The C truth values 1 and 0 are \<open>True\<close> and \<open>False\<close>.\<close>

definition match_pattern :: "string \<Rightarrow> string \<Rightarrow> bool" where
  "match_pattern filename pattern = fnmatch pattern filename"


text \<open>
  The two loops of \<open>should_copy_file\<close> over a \<open>NULL\<close>-terminated array:
  \<^verbatim>\<open>for (int i = 0; patterns[i] != NULL; i++) if (match_pattern(filename, patterns[i])) return ...;\<close>
\<close>

fun matches_any :: "string \<Rightarrow> string list \<Rightarrow> bool" where
  "matches_any filename [] = False"
| "matches_any filename (p # ps) =
     (if match_pattern filename p then True else matches_any filename ps)"

text \<open>
  A pattern array is a pointer that may be \<open>NULL\<close> (\<open>None\<close>) or point to a
  \<open>NULL\<close>-terminated array of strings (\<open>Some ps\<close>).
\<close>

definition should_copy_file :: "string \<Rightarrow> string list option \<Rightarrow> string list option \<Rightarrow> bool" where
  "should_copy_file filename include_patterns exclude_patterns =
     (if (case exclude_patterns of None \<Rightarrow> False | Some ex \<Rightarrow> matches_any filename ex)
      then False
      else if include_patterns = None \<or> include_patterns = Some [] then True
      else matches_any filename (the include_patterns))"

definition patterns_of :: "string list option \<Rightarrow> string list" where
  "patterns_of ps = (case ps of None \<Rightarrow> [] | Some l \<Rightarrow> l)"

text \<open>
  The glob of the specification, written from its words and not from the code: \<open>*\<close>
  matches any run of characters (including the empty run), \<open>?\<close> matches exactly
  one character, every other character stands for itself (there are no character
  classes), and the whole name must match.
\<close>

primrec spec_matches :: "string \<Rightarrow> string \<Rightarrow> bool" where
  "spec_matches [] name = (name = [])"
| "spec_matches (c # p) name =
     (if c = CHR ''*'' then (\<exists>k\<in>{0..length name}. spec_matches p (drop k name))
      else if c = CHR ''?'' then (case name of [] \<Rightarrow> False | x # name' \<Rightarrow> spec_matches p name')
      else (case name of [] \<Rightarrow> False | x # name' \<Rightarrow> x = c \<and> spec_matches p name'))"

subsection \<open>Properties of the filter\<close>

lemma matches_any_iff: "matches_any filename ps = (\<exists>p\<in>set ps. match_pattern filename p)"
  by (induction ps) auto

lemma Bex_upto_Suc: "(\<exists>k\<in>{0..Suc n}. P k) = (P 0 \<or> (\<exists>k\<in>{0..n}. P (Suc k)))"
proof
  assume "\<exists>k\<in>{0..Suc n}. P k"
  then obtain k where k: "k \<le> Suc n" "P k" by auto
  then show "P 0 \<or> (\<exists>k\<in>{0..n}. P (Suc k))" by (cases k) auto
next
  assume "P 0 \<or> (\<exists>k\<in>{0..n}. P (Suc k))"
  then show "\<exists>k\<in>{0..Suc n}. P k" by auto
qed

lemma fnmatch_star:
  "fnmatch (CHR ''*'' # p) s = (\<exists>k\<in>{0..length s}. fnmatch p (drop k s))"
proof (induction s)
  case Nil
  then show ?case by simp
next
  case (Cons x s)
  have "fnmatch (CHR ''*'' # p) (x # s) = (fnmatch p (x # s) \<or> fnmatch (CHR ''*'' # p) s)"
    by simp
  also have "\<dots> = (fnmatch p (x # s) \<or> (\<exists>k\<in>{0..length s}. fnmatch p (drop k s)))"
    by (simp only: Cons.IH)
  also have "\<dots> = (\<exists>k\<in>{0..length (x # s)}. fnmatch p (drop k (x # s)))"
    by (simp add: Bex_upto_Suc del: fnmatch.simps)
  finally show ?case .
qed

lemma fnmatch_plain:
  "CHR ''['' \<notin> set p \<Longrightarrow> CHR 0x5C \<notin> set p \<Longrightarrow> fnmatch p s = spec_matches p s"
proof (induction p arbitrary: s)
  case Nil
  then show ?case by simp
next
  case (Cons c p)
  then have IH: "\<And>t. fnmatch p t = spec_matches p t" by simp
  show ?case
  proof (cases "c = CHR ''*''")
    case True
    then show ?thesis using IH by (simp add: fnmatch_star del: fnmatch.simps)
  next
    case False
    with Cons.prems IH show ?thesis by (cases s) auto
  qed
qed

text \<open>
  Claim C5. For every filename and every pair of pattern lists,
  \<open>should_copy_file\<close> rejects when the exclude list is non-empty and one of its
  patterns matches the name; otherwise it admits when the include list is empty;
  otherwise it admits exactly when some include pattern matches. In particular the
  empty lists admit every name, a single exclude pattern \<open>p\<close> (with no include
  pattern) rejects exactly the names \<open>p\<close> matches, and an exclude pattern that
  matches wins over any include list. A \<open>NULL\<close> array counts as the empty list.
\<close>

theorem should_copy_file_policy:
  "should_copy_file name inc exc =
     (if patterns_of exc \<noteq> [] \<and> (\<exists>p\<in>set (patterns_of exc). match_pattern name p) then False
      else if patterns_of inc = [] then True
      else (\<exists>p\<in>set (patterns_of inc). match_pattern name p))
   \<and> should_copy_file name (Some []) (Some [])
   \<and> (should_copy_file name (Some []) (Some [p]) = False \<longleftrightarrow> match_pattern name p)
   \<and> (e \<in> set ex \<and> match_pattern name e \<longrightarrow> \<not> should_copy_file name (Some incl) (Some ex))"
  by (cases inc; cases exc)
     (auto simp: should_copy_file_def patterns_of_def matches_any_iff)

theorem should_copy_file_policy_witness:
  "should_copy_file ''report.txt'' (Some [''*.txt'']) (Some [''tmp*''])
   \<and> match_pattern ''tmp_report.txt'' ''tmp*''
   \<and> \<not> should_copy_file ''tmp_report.txt'' (Some [''*.txt'']) (Some [''tmp*''])"
proof -
  have m: "match_pattern ''tmp_report.txt'' ''tmp*''" by (simp add: match_pattern_def)
  have a: "should_copy_file ''report.txt'' (Some [''*.txt'']) (Some [''tmp*''])"
    using should_copy_file_policy [where name = "''report.txt''" and inc = "Some [''*.txt'']"
        and exc = "Some [''tmp*'']"]
    by (simp add: patterns_of_def match_pattern_def)
  have b: "\<not> should_copy_file ''tmp_report.txt'' (Some [''*.txt'']) (Some [''tmp*''])"
  proof -
    have i: "''tmp*'' \<in> set [''tmp*'']" by simp
    show ?thesis
      using should_copy_file_policy [where name = "''tmp_report.txt''" and e = "''tmp*''"
          and ex = "[''tmp*'']" and incl = "[''*.txt'']" and inc = None and exc = None
          and p = "[]"] m i
      by blast
  qed
  from a m b show ?thesis by simp
qed

lemma fnmatch_pair:
  assumes "x \<notin> {CHR '']'', CHR ''['', CHR ''!'', CHR ''^'', CHR ''-'', CHR 0x5C}"
    and "y \<notin> {CHR '']'', CHR ''['', CHR ''!'', CHR ''^'', CHR ''-'', CHR 0x5C}"
  shows "fnmatch [CHR ''['', x, y, CHR '']''] s = (s = [x] \<or> s = [y])"
proof (cases s)
  case Nil
  then show ?thesis by simp
next
  case (Cons a t)
  from assms have "bracket [x, y, CHR '']''] a = Matched (a = x \<or> a = y) []"
    by (auto simp: bracket_def)
  with Cons show ?thesis by auto
qed

lemma fnmatch_quoted: "fnmatch [CHR 0x5C, x] s = (s = [x])"
  by (cases s) auto

text \<open>
  Claim C6, as amended. \<open>match_pattern\<close> is \<open>fnmatch\<close> with no flags: on every
  pattern that contains neither \<open>[\<close> nor a backslash it is the glob of the
  specification (\<open>*\<close> any run, \<open>?\<close> exactly one character, case-sensitive,
  anchored); but character classes are supported: a bracket expression \<open>[xy]\<close>
  matches one character out of its members, and a backslash quotes the character
  after it.
\<close>

theorem match_pattern_glob:
  "(CHR ''['' \<notin> set pattern \<and> CHR 0x5C \<notin> set pattern
      \<longrightarrow> match_pattern name pattern = spec_matches pattern name)
   \<and> (x \<notin> {CHR '']'', CHR ''['', CHR ''!'', CHR ''^'', CHR ''-'', CHR 0x5C} \<and>
      y \<notin> {CHR '']'', CHR ''['', CHR ''!'', CHR ''^'', CHR ''-'', CHR 0x5C}
      \<longrightarrow> match_pattern name [CHR ''['', x, y, CHR '']''] = (name = [x] \<or> name = [y]))
   \<and> match_pattern name [CHR 0x5C, x] = (name = [x])"
  unfolding match_pattern_def
  using fnmatch_plain [of pattern name] fnmatch_pair [of x y name] fnmatch_quoted [of x name]
  by blast

theorem match_pattern_glob_witness:
  "match_pattern ''main.c'' ''*.?'' \<and> spec_matches ''*.?'' ''main.c''
   \<and> \<not> match_pattern ''Main.c'' ''main.c''
   \<and> \<not> match_pattern ''xmain.c'' ''main.c''
   \<and> match_pattern ''b'' ''[ab]''
   \<and> \<not> match_pattern ''ab'' [CHR 0x5C, CHR ''*'']"
proof -
  have s: "spec_matches ''*.?'' ''main.c''"
  proof -
    have "spec_matches ''.?'' (drop 4 ''main.c'')" by simp
    then have "\<exists>k\<in>{0..length ''main.c''}. spec_matches ''.?'' (drop k ''main.c'')"
      by (intro bexI[of _ 4]) simp_all
    then show ?thesis by simp
  qed
  have a: "match_pattern ''main.c'' ''*.?''"
    using match_pattern_glob [where pattern = "''*.?''" and name = "''main.c''"] s by simp
  have b: "\<not> match_pattern ''Main.c'' ''main.c''"
    using match_pattern_glob [where pattern = "''main.c''" and name = "''Main.c''"] by simp
  have c: "\<not> match_pattern ''xmain.c'' ''main.c''"
    using match_pattern_glob [where pattern = "''main.c''" and name = "''xmain.c''"] by simp
  have d: "match_pattern ''b'' ''[ab]''"
    using match_pattern_glob [where x = "CHR ''a''" and y = "CHR ''b''" and name = "''b''"]
    by simp
  have e: "\<not> match_pattern ''ab'' [CHR 0x5C, CHR ''*'']"
    using match_pattern_glob [where x = "CHR ''*''" and name = "''ab''"] by simp
  from s a b c d e show ?thesis by simp
qed

text \<open>
  The claim as stated (no character classes) fails: the pattern \<open>[ab]\<close> matches
  the name \<open>a\<close>, which the glob of the specification rejects.
\<close>

theorem match_pattern_no_classes_counterexample:
  "match_pattern ''a'' ''[ab]'' \<and> \<not> spec_matches ''[ab]'' ''a''"
  by (simp add: match_pattern_def bracket_def)

section \<open>The file system and the system calls\<close>

text \<open>
  The program works on the file system through system calls. The model keeps the file
  system as a map from locations to nodes. A location (\<open>key\<close>) is the list of the
  names from the root to the node; a node is a regular file (its bytes and its
  permission bits) or a directory (its permission bits, the device it lives on, and
  the names \<open>readdir\<close> lists, in the order it lists them). There are no symbolic
  links, hard links or special files, and access rights are not enforced: a call that
  fails for a reason outside the model (permissions, a read-only or full device, an
  I/O error) is an injected fault, below.
\<close>

type_synonym path = string
type_synonym key = "string list"
type_synonym byte = "8 word"
type_synonym mode = "32 word"

datatype node = File (content: "byte list") (perm: mode)
              | Dir (perm: mode) (dev: nat) (entries: "string list")

datatype errno = ENOENT | EEXIST | ENOTDIR | EISDIR | ENOTEMPTY | EXDEV | EINVAL | EBUSY
               | ENAMETOOLONG | EBADF | EIO

text \<open>
  Every call may fail for a reason the file system does not show. \<open>faults\<close> gives,
  for each kind of call, the script of its next outcomes (\<open>True\<close>: this call fails
  with \<open>EIO\<close> and changes nothing); a script that has run out injects no fault.
  \<open>trace\<close> records every call made, with what it returned: the number of bytes for
  a \<open>read\<close> or \<open>write\<close> that succeeded, 0 for any other call that succeeded, and
  -1 for a call that failed (descriptor numbers are not modelled: an open file is named
  by its location, and the C functions below keep its offset).
\<close>

datatype syscall = Stat | Open | Read | Write | Fstat | Fchmod | Unlink | Rename | Mkdir
                 | Rmdir | Opendir

datatype call = CStat path | COpenRd path | COpenWr path | CRead key | CWrite key nat
              | CFstat key | CFchmod key mode | CUnlink path | CRename path path
              | CMkdir path | CRmdir path | COpendir path

type_synonym event = "call \<times> int"

record world =
  fs :: "key \<Rightarrow> node option"
  cwd :: key
  umask :: mode
  dir_size :: "key \<Rightarrow> string list \<Rightarrow> nat"
  faults :: "syscall \<Rightarrow> bool list"
  trace :: "event list"

record stat_buf =
  st_is_dir :: bool
  st_perm :: mode
  st_size :: int

definition MAX_PATH :: nat where "MAX_PATH = 4096"
definition NAME_MAX :: nat where "NAME_MAX = 255"
definition BUFFER_SIZE :: nat where "BUFFER_SIZE = 8192"

subsection \<open>Path resolution\<close>

text \<open>
  A path is split at its slashes; an empty component or \<open>.\<close> stays in place,
  \<open>..\<close> goes up, a name goes down. Every location that is left behind on the way
  must be an existing directory; the last location reached need not exist. An empty
  path does not resolve, nor does one of \<open>MAX_PATH\<close> (the system's \<open>PATH_MAX\<close>)
  characters or more, nor one with a component of more than \<open>NAME_MAX\<close>
  characters. \<open>mkdir\<close>, \<open>rmdir\<close> and the target of \<open>rename\<close> accept
  trailing slashes (\<open>strip = True\<close>).
\<close>

fun split_path :: "path \<Rightarrow> string list" where
  "split_path [] = [[]]"
| "split_path (c # cs) =
     (if c = CHR ''/'' then [] # split_path cs
      else (case split_path cs of [] \<Rightarrow> [[c]] | x # xs \<Rightarrow> (c # x) # xs))"

definition step :: "key \<Rightarrow> string \<Rightarrow> key" where
  "step k c = (if c = [] \<or> c = ''.'' then k else if c = ''..'' then butlast k else k @ [c])"

fun walk :: "(key \<Rightarrow> node option) \<Rightarrow> key \<Rightarrow> string list \<Rightarrow> errno + key" where
  "walk f k [] = Inr k"
| "walk f k (c # cs) =
     (case f k of
        None \<Rightarrow> Inl ENOENT
      | Some (File _ _) \<Rightarrow> Inl ENOTDIR
      | Some (Dir _ _ _) \<Rightarrow>
          if NAME_MAX < length c then Inl ENAMETOOLONG else walk f (step k c) cs)"

definition strip_slashes :: "string list \<Rightarrow> string list" where
  "strip_slashes cs = rev (dropWhile (\<lambda>c. c = []) (rev cs))"

definition namei :: "world \<Rightarrow> bool \<Rightarrow> path \<Rightarrow> errno + key" where
  "namei w strip p =
     (if p = [] then Inl ENOENT
      else if MAX_PATH \<le> length p then Inl ENAMETOOLONG
      else walk (fs w) (if hd p = CHR ''/'' then [] else cwd w)
             (if strip then strip_slashes (split_path p) else split_path p))"


subsection \<open>The system calls\<close>

definition fault :: "world \<Rightarrow> syscall \<Rightarrow> bool \<times> world" where
  "fault w s =
     (case faults w s of
        [] \<Rightarrow> (False, w)
      | b # bs \<Rightarrow> (b, w\<lparr>faults := (faults w)(s := bs)\<rparr>))"

definition log :: "call \<Rightarrow> int \<Rightarrow> world \<Rightarrow> world" where
  "log c r w = w\<lparr>trace := trace w @ [(c, r)]\<rparr>"

definition attributes :: "world \<Rightarrow> key \<Rightarrow> node \<Rightarrow> stat_buf" where
  "attributes w k n =
     (case n of
        File c m \<Rightarrow> \<lparr>st_is_dir = False, st_perm = m, st_size = int (length c)\<rparr>
      | Dir m d es \<Rightarrow> \<lparr>st_is_dir = True, st_perm = m, st_size = int (dir_size w k es)\<rparr>)"

definition is_dir_node :: "node option \<Rightarrow> bool" where
  "is_dir_node n = (case n of Some (Dir _ _ _) \<Rightarrow> True | _ \<Rightarrow> False)"

definition add_entry :: "(key \<Rightarrow> node option) \<Rightarrow> key \<Rightarrow> (key \<Rightarrow> node option)" where
  "add_entry f k =
     (case f (butlast k) of
        Some (Dir m d es) \<Rightarrow>
          f(butlast k \<mapsto> Dir m d (if last k \<in> set es then es else es @ [last k]))
      | _ \<Rightarrow> f)"

definition del_entry :: "(key \<Rightarrow> node option) \<Rightarrow> key \<Rightarrow> (key \<Rightarrow> node option)" where
  "del_entry f k =
     (case f (butlast k) of
        Some (Dir m d es) \<Rightarrow> f(butlast k \<mapsto> Dir m d (removeAll (last k) es))
      | _ \<Rightarrow> f)"

definition sys_stat :: "world \<Rightarrow> path \<Rightarrow> (errno + stat_buf) \<times> world" where
  "sys_stat w p =
     (let (bad, w) = fault w Stat;
          r = (if bad then Inl EIO
               else case namei w False p of
                      Inl e \<Rightarrow> Inl e
                    | Inr k \<Rightarrow> (case fs w k of None \<Rightarrow> Inl ENOENT
                                | Some n \<Rightarrow> Inr (attributes w k n)))
      in (r, log (CStat p) (if isl r then -1 else 0) w))"


text \<open>\<open>open(p, O_RDONLY)\<close>; a directory can be opened, but not read.\<close>

definition sys_open_rd :: "world \<Rightarrow> path \<Rightarrow> (errno + key) \<times> world" where
  "sys_open_rd w p =
     (let (bad, w) = fault w Open;
          r = (if bad then Inl EIO
               else case namei w False p of
                      Inl e \<Rightarrow> Inl e
                    | Inr k \<Rightarrow> (case fs w k of None \<Rightarrow> Inl ENOENT | Some n \<Rightarrow> Inr k))
      in (r, log (COpenRd p) (if isl r then -1 else 0) w))"

text \<open>
  \<open>open(p, O_WRONLY | O_CREAT | O_TRUNC, 0644)\<close>: an existing file is emptied (its
  permission bits stay), a missing one is created in its directory with the bits
  \<open>0644\<close> (420) less the umask.
\<close>

definition creat_perm :: "world \<Rightarrow> mode \<Rightarrow> mode" where
  "creat_perm w m = m AND NOT (umask w)"

definition sys_open_wr :: "world \<Rightarrow> path \<Rightarrow> (errno + key) \<times> world" where
  "sys_open_wr w p =
     (let (bad, w) = fault w Open in
      if bad then (Inl EIO, log (COpenWr p) (-1) w)
      else case namei w False p of
             Inl e \<Rightarrow> (Inl e, log (COpenWr p) (-1) w)
           | Inr k \<Rightarrow>
               (case fs w k of
                  Some (Dir m d es) \<Rightarrow> (Inl EISDIR, log (COpenWr p) (-1) w)
                | Some (File c m) \<Rightarrow>
                    (Inr k, log (COpenWr p) 0 (w\<lparr>fs := (fs w)(k \<mapsto> File [] m)\<rparr>))
                | None \<Rightarrow>
                    if k \<noteq> [] \<and> is_dir_node (fs w (butlast k)) then
                      (Inr k, log (COpenWr p) 0
                         (w\<lparr>fs := add_entry ((fs w)(k \<mapsto> File [] (creat_perm w 420))) k\<rparr>))
                    else (Inl ENOENT, log (COpenWr p) (-1) w)))"

text \<open>
  \<open>read(fd, buffer, BUFFER_SIZE)\<close> at an offset: on a regular file a read is never
  short before the end of the file.
\<close>

definition sys_read :: "world \<Rightarrow> key \<Rightarrow> nat \<Rightarrow> (errno + byte list) \<times> world" where
  "sys_read w k off =
     (let (bad, w) = fault w Read;
          r = (if bad then Inl EIO
               else case fs w k of
                      None \<Rightarrow> Inl EBADF
                    | Some (Dir m d es) \<Rightarrow> Inl EISDIR
                    | Some (File c m) \<Rightarrow> Inr (take BUFFER_SIZE (drop off c)))
      in (r, log (CRead k) (case r of Inl e \<Rightarrow> -1 | Inr bs \<Rightarrow> int (length bs)) w))"

definition write_at :: "byte list \<Rightarrow> nat \<Rightarrow> byte list \<Rightarrow> byte list" where
  "write_at c off bs =
     take off c @ replicate (off - length c) 0 @ bs @ drop (off + length bs) c"

definition sys_write :: "world \<Rightarrow> key \<Rightarrow> nat \<Rightarrow> byte list \<Rightarrow> int \<times> world" where
  "sys_write w k off bs =
     (let (bad, w) = fault w Write in
      if bad then (-1, log (CWrite k (length bs)) (-1) w)
      else case fs w k of
             Some (File c m) \<Rightarrow>
               (int (length bs),
                log (CWrite k (length bs)) (int (length bs))
                  (w\<lparr>fs := (fs w)(k \<mapsto> File (write_at c off bs) m)\<rparr>))
           | _ \<Rightarrow> (-1, log (CWrite k (length bs)) (-1) w))"

definition sys_fstat :: "world \<Rightarrow> key \<Rightarrow> (errno + stat_buf) \<times> world" where
  "sys_fstat w k =
     (let (bad, w) = fault w Fstat;
          r = (if bad then Inl EIO
               else case fs w k of None \<Rightarrow> Inl EBADF | Some n \<Rightarrow> Inr (attributes w k n))
      in (r, log (CFstat k) (if isl r then -1 else 0) w))"

definition set_perm :: "node \<Rightarrow> mode \<Rightarrow> node" where
  "set_perm n m = (case n of File c _ \<Rightarrow> File c m | Dir _ d es \<Rightarrow> Dir m d es)"

definition sys_fchmod :: "world \<Rightarrow> key \<Rightarrow> mode \<Rightarrow> int \<times> world" where
  "sys_fchmod w k m =
     (let (bad, w) = fault w Fchmod in
      if bad then (-1, log (CFchmod k m) (-1) w)
      else case fs w k of
             None \<Rightarrow> (-1, log (CFchmod k m) (-1) w)
           | Some n \<Rightarrow> (0, log (CFchmod k m) 0 (w\<lparr>fs := (fs w)(k \<mapsto> set_perm n m)\<rparr>)))"

definition sys_unlink :: "world \<Rightarrow> path \<Rightarrow> errno option \<times> world" where
  "sys_unlink w p =
     (let (bad, w) = fault w Unlink in
      if bad then (Some EIO, log (CUnlink p) (-1) w)
      else case namei w False p of
             Inl e \<Rightarrow> (Some e, log (CUnlink p) (-1) w)
           | Inr k \<Rightarrow>
               (case fs w k of
                  None \<Rightarrow> (Some ENOENT, log (CUnlink p) (-1) w)
                | Some (Dir m d es) \<Rightarrow> (Some EISDIR, log (CUnlink p) (-1) w)
                | Some (File c m) \<Rightarrow>
                    (None, log (CUnlink p) 0 (w\<lparr>fs := del_entry ((fs w)(k := None)) k\<rparr>))))"

definition sys_mkdir :: "world \<Rightarrow> path \<Rightarrow> errno option \<times> world" where
  "sys_mkdir w p =
     (let (bad, w) = fault w Mkdir in
      if bad then (Some EIO, log (CMkdir p) (-1) w)
      else case namei w True p of
             Inl e \<Rightarrow> (Some e, log (CMkdir p) (-1) w)
           | Inr k \<Rightarrow>
               if fs w k \<noteq> None then (Some EEXIST, log (CMkdir p) (-1) w)
               else if k = [] then (Some ENOENT, log (CMkdir p) (-1) w)
               else (case fs w (butlast k) of
                       Some (Dir pm d es) \<Rightarrow>
                         (None, log (CMkdir p) 0
                            (w\<lparr>fs := add_entry ((fs w)(k \<mapsto> Dir (creat_perm w 493) d [])) k\<rparr>))
                     | _ \<Rightarrow> (Some ENOENT, log (CMkdir p) (-1) w)))"

definition mount_point :: "(key \<Rightarrow> node option) \<Rightarrow> key \<Rightarrow> bool" where
  "mount_point f k =
     (k = [] \<or> (case (f k, f (butlast k)) of
                  (Some (Dir _ d _), Some (Dir _ d' _)) \<Rightarrow> d \<noteq> d'
                | _ \<Rightarrow> False))"

text \<open>
  \<open>rmdir\<close> refuses a path whose last component is \<open>.\<close> (\<open>EINVAL\<close>) or \<open>..\<close>
  (\<open>ENOTEMPTY\<close>), before it looks at the directory.
\<close>

definition last_name :: "path \<Rightarrow> string" where
  "last_name p =
     (let cs = strip_slashes (split_path p) in if cs = [] then [] else last cs)"

definition sys_rmdir :: "world \<Rightarrow> path \<Rightarrow> errno option \<times> world" where
  "sys_rmdir w p =
     (let (bad, w) = fault w Rmdir in
      if bad then (Some EIO, log (CRmdir p) (-1) w)
      else case namei w True p of
             Inl e \<Rightarrow> (Some e, log (CRmdir p) (-1) w)
           | Inr k \<Rightarrow>
               if last_name p = ''.'' then (Some EINVAL, log (CRmdir p) (-1) w)
               else if last_name p = ''..'' then (Some ENOTEMPTY, log (CRmdir p) (-1) w)
               else
               (case fs w k of
                  None \<Rightarrow> (Some ENOENT, log (CRmdir p) (-1) w)
                | Some (File c m) \<Rightarrow> (Some ENOTDIR, log (CRmdir p) (-1) w)
                | Some (Dir m d es) \<Rightarrow>
                    if mount_point (fs w) k then (Some EBUSY, log (CRmdir p) (-1) w)
                    else if es \<noteq> [] then (Some ENOTEMPTY, log (CRmdir p) (-1) w)
                    else (None, log (CRmdir p) 0 (w\<lparr>fs := del_entry ((fs w)(k := None)) k\<rparr>))))"

definition sys_opendir :: "world \<Rightarrow> path \<Rightarrow> (errno + string list) \<times> world" where
  "sys_opendir w p =
     (let (bad, w) = fault w Opendir;
          r = (if bad then Inl EIO
               else case namei w False p of
                      Inl e \<Rightarrow> Inl e
                    | Inr k \<Rightarrow>
                        (case fs w k of
                           None \<Rightarrow> Inl ENOENT
                         | Some (File c m) \<Rightarrow> Inl ENOTDIR
                         | Some (Dir m d es) \<Rightarrow> Inr (''.'' # ''..'' # es)))
      in (r, log (COpendir p) (if isl r then -1 else 0) w))"

text \<open>
  \<open>rename(old, new)\<close>. The directories that hold the two names must be on the same
  device, or the call fails with \<open>EXDEV\<close>; that is checked before the source is
  looked up, as Linux does. A successful call moves the node, with everything below
  it, and replaces a file or an empty directory at the target.
\<close>

definition move_tree :: "(key \<Rightarrow> node option) \<Rightarrow> key \<Rightarrow> key \<Rightarrow> (key \<Rightarrow> node option)" where
  "move_tree f ko kn =
     (let g = (\<lambda>k. if prefix kn k then f (ko @ drop (length kn) k)
                    else if prefix ko k then None
                    else f k);
          g = del_entry g ko
      in if f kn = None then add_entry g kn else g)"

definition rename_check :: "world \<Rightarrow> path \<Rightarrow> key \<Rightarrow> key \<Rightarrow> errno option" where
  "rename_check w new ko kn =
     (if ko = [] \<or> kn = [] then Some EBUSY
      else case (fs w (butlast ko), fs w (butlast kn)) of
        (Some (Dir _ d _), Some (Dir _ d' _)) \<Rightarrow>
          if d \<noteq> d' then Some EXDEV
          else (case fs w ko of
                  None \<Rightarrow> Some ENOENT
                | Some (File c m) \<Rightarrow>
                    if last new = CHR ''/'' then Some ENOTDIR
                    else if is_dir_node (fs w kn) then Some EISDIR
                    else None
                | Some (Dir m dd es) \<Rightarrow>
                    if mount_point (fs w) ko then Some EBUSY
                    else if ko \<noteq> kn \<and> prefix ko kn then Some EINVAL
                    else (case fs w kn of
                            None \<Rightarrow> None
                          | Some (File c' m') \<Rightarrow> Some ENOTDIR
                          | Some (Dir m' d'' es') \<Rightarrow>
                              if ko = kn then None
                              else if mount_point (fs w) kn then Some EBUSY
                              else if es' \<noteq> [] then Some ENOTEMPTY
                              else None))
      | _ \<Rightarrow> Some ENOENT)"

definition sys_rename :: "world \<Rightarrow> path \<Rightarrow> path \<Rightarrow> errno option \<times> world" where
  "sys_rename w old new =
     (let (bad, w) = fault w Rename in
      if bad then (Some EIO, log (CRename old new) (-1) w)
      else case namei w False old of
             Inl e \<Rightarrow> (Some e, log (CRename old new) (-1) w)
           | Inr ko \<Rightarrow>
               (case namei w True new of
                  Inl e \<Rightarrow> (Some e, log (CRename old new) (-1) w)
                | Inr kn \<Rightarrow>
                    (case rename_check w new ko kn of
                       Some e \<Rightarrow> (Some e, log (CRename old new) (-1) w)
                     | None \<Rightarrow>
                         (None, log (CRename old new) 0
                            (if ko = kn then w
                             else w\<lparr>fs := move_tree (fs w) ko kn\<rparr>)))))"


section \<open>The program\<close>

subsection \<open>Return codes and path queries\<close>

abbreviation (input) SUCCESS :: int where "SUCCESS \<equiv> 0"
abbreviation (input) ERROR_FILE_OPEN :: int where "ERROR_FILE_OPEN \<equiv> -1"
abbreviation (input) ERROR_FILE_READ :: int where "ERROR_FILE_READ \<equiv> -2"
abbreviation (input) ERROR_FILE_WRITE :: int where "ERROR_FILE_WRITE \<equiv> -3"
abbreviation (input) ERROR_DIR_CREATE :: int where "ERROR_DIR_CREATE \<equiv> -4"
abbreviation (input) ERROR_DIR_OPEN :: int where "ERROR_DIR_OPEN \<equiv> -5"
abbreviation (input) ERROR_INVALID_PATH :: int where "ERROR_INVALID_PATH \<equiv> -6"
abbreviation (input) ERROR_MOVE_FAILED :: int where "ERROR_MOVE_FAILED \<equiv> -7"
abbreviation (input) ERROR_FILES_DIFFER :: int where "ERROR_FILES_DIFFER \<equiv> -8"

definition path_exists :: "world \<Rightarrow> path \<Rightarrow> bool \<times> world" where
  "path_exists w path = (let (r, w) = sys_stat w path in (\<not> isl r, w))"

definition is_directory :: "world \<Rightarrow> path \<Rightarrow> bool \<times> world" where
  "is_directory w path =
     (let (r, w) = sys_stat w path
      in (case r of Inl e \<Rightarrow> (False, w) | Inr st \<Rightarrow> (st_is_dir st, w)))"

definition get_file_size :: "world \<Rightarrow> path \<Rightarrow> int \<times> world" where
  "get_file_size w path =
     (let (r, w) = sys_stat w path
      in (case r of Inl e \<Rightarrow> (-1, w) | Inr st \<Rightarrow> (st_size st, w)))"

subsection \<open>\<open>copy_file\<close>\<close>

text \<open>
  \<open>strrchr(src_path, '/')\<close> and the two ways the destination buffer is filled:
  \<open>snprintf(final_dest_path, MAX_PATH, "%s/%s", dest_path, filename)\<close> and
  \<open>strncpy(final_dest_path, dest_path, MAX_PATH - 1)\<close>; both cut the text at
  \<open>MAX_PATH - 1\<close> characters.
\<close>

definition basename :: "path \<Rightarrow> string" where
  "basename p = rev (takeWhile (\<lambda>c. c \<noteq> CHR ''/'') (rev p))"

definition join_path :: "path \<Rightarrow> string \<Rightarrow> path" where
  "join_path dir name = take (MAX_PATH - 1) (dir @ ''/'' @ name)"

definition final_dest_path :: "bool \<Rightarrow> path \<Rightarrow> path \<Rightarrow> path" where
  "final_dest_path dest_is_dir src_path dest_path =
     (if dest_is_dir then join_path dest_path (basename src_path)
      else take (MAX_PATH - 1) dest_path)"

text \<open>
  The copy loop
  \<^verbatim>\<open>while ((bytes_read = read(src_fd, buffer, BUFFER_SIZE)) > 0) { write(...); ... }\<close>
  with the offsets of the two descriptors written out. It reads the source as it is at
  each turn, so it need not end when both descriptors are the same file; \<open>None\<close> is
  the loop that never returns. The result is the code the function returns right after
  the loop (\<open>SUCCESS\<close> when the loop ended at the end of the file and the function
  goes on). \<open>display_progress\<close> and \<open>printf\<close> only print, and are left out.
\<close>

partial_function (option) copy_loop ::
  "world \<Rightarrow> key \<Rightarrow> nat \<Rightarrow> key \<Rightarrow> nat \<Rightarrow> (int \<times> world) option" where
  "copy_loop w src_fd src_off dest_fd dest_off =
     (let (r, w) = sys_read w src_fd src_off in
      if isl r then Some (ERROR_FILE_READ, w)
      else if projr r = [] then Some (SUCCESS, w)
      else
        (let (bytes_written, w) = sys_write w dest_fd dest_off (projr r) in
         if bytes_written \<noteq> int (length (projr r)) then Some (ERROR_FILE_WRITE, w)
         else copy_loop w src_fd (src_off + length (projr r))
                dest_fd (dest_off + length (projr r))))"

definition copy_file :: "world \<Rightarrow> path \<Rightarrow> path \<Rightarrow> (int \<times> world) option" where
  "copy_file w src_path dest_path =
     (let (total_size, w) = get_file_size w src_path;
          (src, w) = sys_open_rd w src_path
      in case src of
           Inl e \<Rightarrow> Some (ERROR_FILE_OPEN, w)
         | Inr src_fd \<Rightarrow>
             (let (dest_stat, w) = sys_stat w dest_path;
                  final = final_dest_path
                            (case dest_stat of Inl e \<Rightarrow> False | Inr st \<Rightarrow> st_is_dir st)
                            src_path dest_path;
                  (dest, w) = sys_open_wr w final
              in case dest of
                   Inl e \<Rightarrow> Some (ERROR_FILE_OPEN, w)
                 | Inr dest_fd \<Rightarrow>
                     (case copy_loop w src_fd 0 dest_fd 0 of
                        None \<Rightarrow> None
                      | Some (rc, w) \<Rightarrow>
                          if rc \<noteq> SUCCESS then Some (rc, w)
                          else
                            (let (st, w) = sys_fstat w src_fd
                             in case st of
                                  Inl e \<Rightarrow> Some (SUCCESS, w)
                                | Inr b \<Rightarrow>
                                    Some (SUCCESS, snd (sys_fchmod w dest_fd (st_perm b)))))))"

subsection \<open>\<open>compare_files\<close>\<close>

function compare_loop :: "world \<Rightarrow> key \<Rightarrow> nat \<Rightarrow> key \<Rightarrow> nat \<Rightarrow> int \<times> world" where
  "compare_loop w fd1 off1 fd2 off2 =
     (let (r1, w1) = sys_read w fd1 off1;
          (r2, w2) = sys_read w1 fd2 off2
      in if isl r1 \<or> isl r2 then (ERROR_FILE_READ, w2)
         else if length (projr r1) \<noteq> length (projr r2) then (ERROR_FILES_DIFFER, w2)
         else if projr r1 = [] then (SUCCESS, w2)
         else if projr r1 \<noteq> projr r2 then (ERROR_FILES_DIFFER, w2)
         else compare_loop w2 fd1 (off1 + length (projr r1)) fd2 (off2 + length (projr r2)))"
  by pat_completeness auto

lemma fault_fields [simp]:
  "fs (snd (fault w s)) = fs w" "cwd (snd (fault w s)) = cwd w"
  "umask (snd (fault w s)) = umask w" "dir_size (snd (fault w s)) = dir_size w"
  "trace (snd (fault w s)) = trace w"
  by (auto simp: fault_def split: list.splits)

lemma log_fields [simp]:
  "fs (log c r w) = fs w" "cwd (log c r w) = cwd w" "umask (log c r w) = umask w"
  "dir_size (log c r w) = dir_size w" "faults (log c r w) = faults w"
  "trace (log c r w) = trace w @ [(c, r)]"
  by (auto simp: log_def)

lemma sys_read_fs [simp]: "fs (snd (sys_read w k off)) = fs w"
  by (simp add: sys_read_def split_beta Let_def)

lemma sys_read_Inr:
  assumes "fst (sys_read w k off) = Inr bs"
  shows "\<exists>c m. fs w k = Some (File c m) \<and> bs = take BUFFER_SIZE (drop off c)"
  using assms
  by (auto simp: sys_read_def split_beta Let_def split: if_splits option.splits node.splits)

termination compare_loop
proof (relation "measure (\<lambda>(w, fd1, off1, fd2, off2).
         case fs w fd1 of Some (File c m) \<Rightarrow> length c - off1 | _ \<Rightarrow> 0)", goal_cases)
  case 1
  show ?case by simp
next
  case (2 w fd1 off1 fd2 off2 x r1 w1 y r2 w2)
  from 2 have r1: "fst (sys_read w fd1 off1) = r1" and w1: "w1 = snd (sys_read w fd1 off1)"
    and w2: "w2 = snd (sys_read w1 fd2 off2)"
    by (auto dest: sym [of "(r1, w1)"] sym [of "(r2, w2)"] simp: prod_eq_iff)
  from 2 obtain bs where bs: "r1 = Inr bs" "bs \<noteq> []" by (cases r1) auto
  from sys_read_Inr [of w fd1 off1 bs] r1 bs obtain c m where
    c: "fs w fd1 = Some (File c m)" "bs = take BUFFER_SIZE (drop off1 c)" by auto
  from c bs have "off1 < length c" by (cases "off1 < length c") auto
  moreover have "fs w2 = fs w" using w1 w2 by simp
  ultimately show ?case using c bs by simp
qed


definition compare_files :: "world \<Rightarrow> path \<Rightarrow> path \<Rightarrow> int \<times> world" where
  "compare_files w file1 file2 =
     (let (e1, w) = path_exists w file1 in
      if \<not> e1 then (ERROR_FILE_OPEN, w)
      else
        (let (e2, w) = path_exists w file2 in
         if \<not> e2 then (ERROR_FILE_OPEN, w)
         else
           (let (size1, w) = get_file_size w file1;
                (size2, w) = get_file_size w file2
            in if size1 \<noteq> size2 then (ERROR_FILES_DIFFER, w)
               else
                 (let (r1, w) = sys_open_rd w file1 in
                  case r1 of
                    Inl e \<Rightarrow> (ERROR_FILE_OPEN, w)
                  | Inr fd1 \<Rightarrow>
                      (let (r2, w) = sys_open_rd w file2 in
                       case r2 of
                         Inl e \<Rightarrow> (ERROR_FILE_OPEN, w)
                       | Inr fd2 \<Rightarrow> compare_loop w fd1 0 fd2 0)))))"

subsection \<open>\<open>create_directory\<close> and \<open>copy_directory\<close>\<close>

text \<open>
  The loop \<^verbatim>\<open>for (p = tmp + 1; *p; p++) if (*p == '/') { *p = 0; ...; *p = '/'; }\<close>
  over the positions of \<open>tmp\<close>: at a slash the text before it is the path looked up.
\<close>

fun create_prefixes :: "world \<Rightarrow> path \<Rightarrow> nat list \<Rightarrow> int \<times> world" where
  "create_prefixes w tmp [] = (SUCCESS, w)"
| "create_prefixes w tmp (i # is) =
     (if tmp ! i = CHR ''/'' then
        (let (ex, w) = path_exists w (take i tmp) in
         if \<not> ex then
           (let (r, w) = sys_mkdir w (take i tmp) in
            if r \<noteq> None \<and> r \<noteq> Some EEXIST then (ERROR_DIR_CREATE, w)
            else create_prefixes w tmp is)
         else create_prefixes w tmp is)
      else create_prefixes w tmp is)"

text \<open>
  \<open>snprintf(tmp, sizeof(tmp), "%s", path)\<close> cuts the path at \<open>MAX_PATH - 1\<close>
  characters. For the empty path the function reads \<open>tmp[-1]\<close>, which C leaves
  undefined: the model has no result (\<open>None\<close>) there.
\<close>

definition create_directory :: "world \<Rightarrow> path \<Rightarrow> (int \<times> world) option" where
  "create_directory w path =
     (let tmp = take (MAX_PATH - 1) path in
      if tmp = [] then None
      else
        (let tmp = (if last tmp = CHR ''/'' then butlast tmp else tmp);
             (rc, w) = create_prefixes w tmp [1..<length tmp]
         in if rc \<noteq> SUCCESS then Some (rc, w)
            else
              (let (ex, w) = path_exists w tmp in
               if \<not> ex then
                 (let (r, w) = sys_mkdir w tmp in
                  if r \<noteq> None \<and> r \<noteq> Some EEXIST then Some (ERROR_DIR_CREATE, w)
                  else Some (SUCCESS, w))
               else Some (SUCCESS, w))))"

text \<open>
  The \<open>readdir\<close> loop of \<open>copy_directory\<close> over the names the directory listed
  when it was opened; \<open>rec\<close> is the recursive call. The recursion of
  \<open>copy_directory\<close> and \<open>remove_directory\<close> is bounded by \<open>depth\<close>, the call
  stack: \<open>None\<close> is a recursion deeper than that (or no defined result).
\<close>

fun copy_entries ::
  "(world \<Rightarrow> path \<Rightarrow> path \<Rightarrow> (int \<times> world) option) \<Rightarrow> world \<Rightarrow> path \<Rightarrow> path
     \<Rightarrow> string list \<Rightarrow> (int \<times> world) option" where
  "copy_entries rec w src_path dest_path [] = Some (SUCCESS, w)"
| "copy_entries rec w src_path dest_path (d_name # rest) =
     (if d_name = ''.'' \<or> d_name = ''..'' then copy_entries rec w src_path dest_path rest
      else
        (let src_file = join_path src_path d_name;
             dest_file = join_path dest_path d_name;
             (isdir, w) = is_directory w src_file
         in case (if isdir then rec w src_file dest_file else copy_file w src_file dest_file) of
              None \<Rightarrow> None
            | Some (result, w) \<Rightarrow>
                if result \<noteq> SUCCESS then Some (result, w)
                else copy_entries rec w src_path dest_path rest))"

primrec copy_directory :: "nat \<Rightarrow> world \<Rightarrow> path \<Rightarrow> path \<Rightarrow> (int \<times> world) option" where
  "copy_directory 0 = (\<lambda>w src_path dest_path. None)"
| "copy_directory (Suc depth) = (\<lambda>w src_path dest_path.
     case create_directory w dest_path of
       None \<Rightarrow> None
     | Some (result, w) \<Rightarrow>
         if result \<noteq> SUCCESS then Some (result, w)
         else
           (let (dir, w) = sys_opendir w src_path in
            case dir of
              Inl e \<Rightarrow> Some (ERROR_DIR_OPEN, w)
            | Inr names \<Rightarrow> copy_entries (copy_directory depth) w src_path dest_path names))"

subsection \<open>The move operations\<close>

text \<open>
  \<open>remove_directory\<close> ignores what its recursive call, \<open>unlink\<close> and \<open>rmdir\<close>
  return.
\<close>

fun remove_entries ::
  "(world \<Rightarrow> path \<Rightarrow> (int \<times> world) option) \<Rightarrow> world \<Rightarrow> path \<Rightarrow> string list
     \<Rightarrow> world option" where
  "remove_entries rec w path [] = Some w"
| "remove_entries rec w path (d_name # rest) =
     (if d_name = ''.'' \<or> d_name = ''..'' then remove_entries rec w path rest
      else
        (let filepath = join_path path d_name;
             (isdir, w) = is_directory w filepath
         in if isdir then
              (case rec w filepath of
                 None \<Rightarrow> None
               | Some (ignored, w) \<Rightarrow> remove_entries rec w path rest)
            else remove_entries rec (snd (sys_unlink w filepath)) path rest))"

primrec remove_directory :: "nat \<Rightarrow> world \<Rightarrow> path \<Rightarrow> (int \<times> world) option" where
  "remove_directory 0 = (\<lambda>w path. None)"
| "remove_directory (Suc depth) = (\<lambda>w path.
     let (dir, w) = sys_opendir w path in
     case dir of
       Inl e \<Rightarrow> Some (ERROR_DIR_OPEN, w)
     | Inr names \<Rightarrow>
         (case remove_entries (remove_directory depth) w path names of
            None \<Rightarrow> None
          | Some w \<Rightarrow> Some (SUCCESS, snd (sys_rmdir w path))))"

definition move_file :: "world \<Rightarrow> path \<Rightarrow> path \<Rightarrow> (int \<times> world) option" where
  "move_file w src_path dest_path =
     (let (err, w) = sys_rename w src_path dest_path in
      if err = None then Some (SUCCESS, w)
      else if err = Some EXDEV then
        (case copy_file w src_path dest_path of
           None \<Rightarrow> None
         | Some (result, w) \<Rightarrow>
             if result \<noteq> SUCCESS then Some (result, w)
             else
               (let (result, w) = compare_files w src_path dest_path in
                if result \<noteq> SUCCESS then
                  Some (ERROR_MOVE_FAILED, snd (sys_unlink w dest_path))
                else
                  (let (err, w) = sys_unlink w src_path in
                   if err \<noteq> None then Some (ERROR_MOVE_FAILED, w)
                   else Some (SUCCESS, w))))
      else Some (ERROR_MOVE_FAILED, w))"

definition move_directory :: "nat \<Rightarrow> world \<Rightarrow> path \<Rightarrow> path \<Rightarrow> (int \<times> world) option" where
  "move_directory depth w src_path dest_path =
     (let (err, w) = sys_rename w src_path dest_path in
      if err = None then Some (SUCCESS, w)
      else if err = Some EXDEV then
        (case copy_directory depth w src_path dest_path of
           None \<Rightarrow> None
         | Some (result, w) \<Rightarrow>
             if result \<noteq> SUCCESS then Some (result, w)
             else
               (case remove_directory depth w src_path of
                  None \<Rightarrow> None
                | Some (result, w) \<Rightarrow>
                    if result \<noteq> SUCCESS then Some (ERROR_MOVE_FAILED, w)
                    else Some (SUCCESS, w)))
      else Some (ERROR_MOVE_FAILED, w))"

subsection \<open>Observing a run\<close>

definition no_faults :: "syscall \<Rightarrow> bool list" where
  "no_faults = (\<lambda>s. [])"

definition returned :: "(int \<times> world) option \<Rightarrow> int option" where
  "returned x = map_option fst x"

definition final_fs :: "(int \<times> world) option \<Rightarrow> key \<Rightarrow> node option" where
  "final_fs x k = (case x of None \<Rightarrow> None | Some (r, w) \<Rightarrow> fs w k)"

definition final_trace :: "(int \<times> world) option \<Rightarrow> event list" where
  "final_trace x = (case x of None \<Rightarrow> [] | Some (r, w) \<Rightarrow> trace w)"

text \<open>Whether a path names an existing directory.\<close>

definition names_directory :: "world \<Rightarrow> path \<Rightarrow> bool" where
  "names_directory w p = (case namei w False p of Inl e \<Rightarrow> False | Inr k \<Rightarrow> is_dir_node (fs w k))"

subsection \<open>A small file system for the examples\<close>

text \<open>
  Two devices: the root with the directories \<open>/a\<close> (three files) and \<open>/s\<close>
  (one file) on device 1, and \<open>/mnt\<close>, where device 2 is mounted, with the empty
  directory \<open>/mnt/d\<close> and the file \<open>/mnt/m\<close>. No fault is injected.
\<close>

definition demo_fs :: "key \<Rightarrow> node option" where
  "demo_fs = (Map.empty)([] \<mapsto> Dir 493 1 [''a'', ''s'', ''mnt''],
                 [''a''] \<mapsto> Dir 493 1 [''f'', ''g'', ''h''],
                 [''a'', ''f''] \<mapsto> File [1, 2, 3] 384,
                 [''a'', ''g''] \<mapsto> File [1, 2] 420,
                 [''a'', ''h''] \<mapsto> File [1, 2, 4] 420,
                 [''s''] \<mapsto> Dir 493 1 [''n''],
                 [''s'', ''n''] \<mapsto> File [5, 6] 420,
                 [''mnt''] \<mapsto> Dir 493 2 [''d'', ''m''],
                 [''mnt'', ''d''] \<mapsto> Dir 493 2 [],
                 [''mnt'', ''m''] \<mapsto> File [7, 8] 420)"

definition demo :: world where
  "demo = \<lparr>fs = demo_fs, cwd = [], umask = 18, dir_size = (\<lambda>k es. 4096), faults = no_faults, trace = []\<rparr>"

text \<open>The same, but the next \<open>fchmod\<close>, or the next \<open>unlink\<close>, fails.\<close>

definition demo_chmod_fails :: world where
  "demo_chmod_fails = demo\<lparr>faults := no_faults(Fchmod := [True])\<rparr>"

definition demo_unlink_fails :: world where
  "demo_unlink_fails = demo\<lparr>faults := no_faults(Unlink := [True])\<rparr>"

text \<open>
  The same, but the second \<open>open\<close> fails: a file the caller may open for reading and
  not for writing.
\<close>

definition demo_write_denied :: world where
  "demo_write_denied = demo\<lparr>faults := no_faults(Open := [False, True])\<rparr>"

text \<open>The same, but the third \<open>read\<close> fails.\<close>

definition demo_read_fails :: world where
  "demo_read_fails = demo\<lparr>faults := no_faults(Read := [False, False, True])\<rparr>"

definition env :: "world \<Rightarrow> key \<times> mode \<times> (key \<Rightarrow> string list \<Rightarrow> nat)" where
  "env w = (cwd w, umask w, dir_size w)"

text \<open>The worlds two moves across the device boundary end in.\<close>

definition after_file_move :: world where
  "after_file_move = snd (the (move_file demo ''/a/f'' ''/mnt/f''))"

definition after_directory_move :: world where
  "after_directory_move = snd (the (move_directory (Suc 0) demo ''/s'' ''/mnt/t''))"

section \<open>Properties\<close>

subsection \<open>Evaluation and the effect of the calls\<close>

lemmas sys_defs = sys_stat_def sys_open_rd_def sys_open_wr_def sys_read_def sys_write_def
  sys_fstat_def sys_fchmod_def sys_unlink_def sys_mkdir_def sys_rmdir_def sys_opendir_def
  sys_rename_def rename_check_def move_tree_def mount_point_def fault_def log_def namei_def
  attributes_def is_dir_node_def add_entry_def del_entry_def creat_perm_def set_perm_def
  write_at_def step_def strip_slashes_def MAX_PATH_def NAME_MAX_def BUFFER_SIZE_def
  no_faults_def last_name_def

lemmas c_defs = path_exists_def is_directory_def get_file_size_def basename_def join_path_def
  final_dest_path_def copy_file_def compare_files_def create_directory_def move_file_def
  move_directory_def returned_def final_fs_def final_trace_def Let_def

lemmas demo_defs = demo_def demo_fs_def

lemmas run_defs = demo_defs demo_unlink_fails_def sys_defs c_defs copy_loop.simps

declare compare_loop.simps [simp del]

text \<open>
  A component longer than \<open>NAME_MAX\<close> stops the resolution inside an existing
  directory, and \<open>rmdir\<close> of a path that ends in \<open>.\<close> fails and removes nothing.
\<close>

lemma walk_long_name:
  "f k = Some (Dir m d es) \<Longrightarrow> NAME_MAX < length c \<Longrightarrow> walk f k (c # cs) = Inl ENAMETOOLONG"
  by simp

lemma sys_rmdir_dot:
  "sys_rmdir demo ''/mnt/d/.'' = (Some EINVAL, log (CRmdir ''/mnt/d/.'') (-1) demo)"
  by (simp add: demo_def demo_fs_def sys_rmdir_def namei_def last_name_def strip_slashes_def
                step_def fault_def no_faults_def MAX_PATH_def NAME_MAX_def)

lemma BUFFER_SIZE_pos: "0 < BUFFER_SIZE"
  by (simp add: BUFFER_SIZE_def)

lemma fault_quiet: "faults w s = [] \<Longrightarrow> fault w s = (False, w)"
  by (simp add: fault_def)

lemma namei_log [simp]: "namei (log c r w) b p = namei w b p"
  by (simp add: namei_def)

lemma sys_stat_found:
  assumes "faults w Stat = []" "namei w False p = Inr k" "fs w k = Some n"
  shows "sys_stat w p = (Inr (attributes w k n), log (CStat p) 0 w)"
  using assms by (simp add: sys_stat_def fault_quiet)

lemma sys_open_rd_found:
  assumes "faults w Open = []" "namei w False p = Inr k" "fs w k = Some n"
  shows "sys_open_rd w p = (Inr k, log (COpenRd p) 0 w)"
  using assms by (simp add: sys_open_rd_def fault_quiet)

lemma sys_read_file:
  assumes "faults w Read = []" "fs w k = Some (File c m)"
  shows "sys_read w k off = (Inr (take BUFFER_SIZE (drop off c)),
           log (CRead k) (int (length (take BUFFER_SIZE (drop off c)))) w)"
  using assms by (simp add: sys_read_def fault_quiet)

lemma namei_same: "fs w' = fs w \<Longrightarrow> env w' = env w \<Longrightarrow> namei w' b p = namei w b p"
  by (simp add: namei_def env_def)

lemma fault_env [simp]: "env (snd (fault w s)) = env w"
  by (simp add: env_def)

lemma log_env [simp]: "env (log c r w) = env w"
  by (simp add: env_def)

lemma fault_other: "s' \<noteq> s \<Longrightarrow> faults (snd (fault w s)) s' = faults w s'"
  by (auto simp: fault_def split: list.splits)

lemma fault_quiet_after: "faults w s = [] \<Longrightarrow> faults (snd (fault w s')) s = []"
  by (auto simp: fault_def split: list.splits)

lemma sys_stat_keeps [simp]:
  "fs (snd (sys_stat w p)) = fs w" "env (snd (sys_stat w p)) = env w"
  "trace (snd (sys_stat w p)) = trace w @ [(CStat p, if isl (fst (sys_stat w p)) then -1 else 0)]"
  by (simp_all add: sys_stat_def split_beta Let_def)

lemma sys_stat_faults:
  "s \<noteq> Stat \<Longrightarrow> faults (snd (sys_stat w p)) s = faults w s"
  "faults w s = [] \<Longrightarrow> faults (snd (sys_stat w p)) s = []"
  by (simp_all add: sys_stat_def split_beta Let_def fault_other fault_quiet_after)

lemma path_exists_keeps [simp]:
  "fs (snd (path_exists w p)) = fs w" "env (snd (path_exists w p)) = env w"
  by (simp_all add: path_exists_def split_beta)

lemma get_file_size_keeps [simp]:
  "fs (snd (get_file_size w p)) = fs w" "env (snd (get_file_size w p)) = env w"
  by (simp_all add: get_file_size_def split_beta split: sum.splits)

lemma is_directory_keeps [simp]:
  "fs (snd (is_directory w p)) = fs w" "env (snd (is_directory w p)) = env w"
  by (simp_all add: is_directory_def split_beta split: sum.splits)

lemma sys_open_rd_keeps [simp]:
  "fs (snd (sys_open_rd w p)) = fs w" "env (snd (sys_open_rd w p)) = env w"
  by (simp_all add: sys_open_rd_def split_beta Let_def)

lemma sys_open_rd_Inr:
  "fst (sys_open_rd w p) = Inr k \<Longrightarrow> namei w False p = Inr k \<and> fs w k \<noteq> None"
  by (auto simp: sys_open_rd_def split_beta Let_def namei_def
           split: if_splits sum.splits option.splits)

lemma sys_read_env [simp]: "env (snd (sys_read w k off)) = env w"
  by (simp add: sys_read_def split_beta Let_def)

lemma sys_rename_failed:
  assumes "sys_rename w old new = (Some e, w1)"
  shows "fs w1 = fs w \<and> trace w1 = trace w @ [(CRename old new, -1)]"
  using assms
  by (auto simp: sys_rename_def split_beta Let_def
           split: if_splits sum.splits option.splits)

subsection \<open>A rename that fails for another reason than the device\<close>

text \<open>
  Claim C8. For every move, of a file or of a directory, a rename that fails with an
  error other than \<open>EXDEV\<close> makes the move fail with \<open>ERROR_MOVE_FAILED\<close> and
  nothing else is tried: the rename is the only call made (the copy, the verification
  and the deletion are not entered), and the file system is as it was, source and
  destination included.
\<close>

theorem move_rename_failure_is_fatal:
  assumes "sys_rename w src_path dest_path = (Some e, w1)" and "e \<noteq> EXDEV"
  shows "move_file w src_path dest_path = Some (ERROR_MOVE_FAILED, w1)
       \<and> move_directory depth w src_path dest_path = Some (ERROR_MOVE_FAILED, w1)
       \<and> fs w1 = fs w
       \<and> trace w1 = trace w @ [(CRename src_path dest_path, -1)]"
  using assms sys_rename_failed [OF assms(1)]
  by (simp add: move_file_def move_directory_def)

theorem move_rename_failure_is_fatal_witness:
  "sys_rename demo ''/a/f'' ''/a'' = (Some EISDIR, log (CRename ''/a/f'' ''/a'') (-1) demo)
   \<and> EISDIR \<noteq> EXDEV
   \<and> move_file demo ''/a/f'' ''/a''
       = Some (ERROR_MOVE_FAILED, log (CRename ''/a/f'' ''/a'') (-1) demo)
   \<and> move_directory 3 demo ''/a/f'' ''/a''
       = Some (ERROR_MOVE_FAILED, log (CRename ''/a/f'' ''/a'') (-1) demo)
   \<and> fs (log (CRename ''/a/f'' ''/a'') (-1) demo) = fs demo"
proof -
  have r: "sys_rename demo ''/a/f'' ''/a''
             = (Some EISDIR, log (CRename ''/a/f'' ''/a'') (-1) demo)"
    by (simp add: demo_defs sys_defs)
  have n: "EISDIR \<noteq> EXDEV" by simp
  from move_rename_failure_is_fatal [OF r n, of 3] r n show ?thesis by simp
qed


subsection \<open>Comparing two files\<close>

lemma take_chunk_split: "bs = take n xs \<Longrightarrow> xs = bs @ drop (length bs) xs"
proof -
  assume "bs = take n xs"
  then have "take (length bs) xs = bs" by (simp add: min_def take_all)
  then show ?thesis using append_take_drop_id [of "length bs" xs] by simp
qed

lemma take_chunk_empty: "0 < n \<Longrightarrow> take n xs = [] \<Longrightarrow> xs = []"
  by (cases xs) auto

lemma compare_loop_quiet:
  assumes "faults w Read = []" "fs w k1 = Some (File c1 m1)" "fs w k2 = Some (File c2 m2)"
    and "length c1 = length c2"
  shows "fst (compare_loop w k1 off k2 off)
           = (if drop off c1 = drop off c2 then SUCCESS else ERROR_FILES_DIFFER)
       \<and> fs (snd (compare_loop w k1 off k2 off)) = fs w"
  using assms
proof (induction "length c1 - off" arbitrary: w off rule: less_induct)
  case less
  define b1 where "b1 = take BUFFER_SIZE (drop off c1)"
  define b2 where "b2 = take BUFFER_SIZE (drop off c2)"
  define w1 where "w1 = log (CRead k1) (int (length b1)) w"
  define w2 where "w2 = log (CRead k2) (int (length b2)) w1"
  have r1: "sys_read w k1 off = (Inr b1, w1)"
    using less.prems by (simp add: sys_read_file b1_def w1_def)
  have r2: "sys_read w1 k2 off = (Inr b2, w2)"
    using less.prems by (simp add: sys_read_file b2_def w2_def w1_def)
  have len: "length b1 = length b2" using less.prems(4) by (simp add: b1_def b2_def)
  have s1: "drop off c1 = b1 @ drop (off + length b1) c1"
    using take_chunk_split [OF b1_def] by (simp add: add.commute)
  have s2: "drop off c2 = b2 @ drop (off + length b1) c2"
    using take_chunk_split [OF b2_def] len by (simp add: add.commute)
  have w2_fs: "fs w2 = fs w" "faults w2 Read = []"
    using less.prems by (simp_all add: w2_def w1_def)
  show ?case
  proof (cases "b1 = []")
    case True
    then have e2: "b2 = []" using len by simp
    from True have "drop off c1 = []"
      using take_chunk_empty [OF BUFFER_SIZE_pos, of "drop off c1"] by (simp add: b1_def)
    moreover from e2 have "drop off c2 = []"
      using take_chunk_empty [OF BUFFER_SIZE_pos, of "drop off c2"] by (simp add: b2_def)
    ultimately show ?thesis
      using True e2 r1 r2 w2_fs by (simp add: compare_loop.simps [of w k1 off k2 off])
  next
    case ne: False
    show ?thesis
    proof (cases "b1 = b2")
      case False
      then have "drop off c1 \<noteq> drop off c2" by (auto simp: b1_def b2_def)
      then show ?thesis
        using False ne len r1 r2 w2_fs by (simp add: compare_loop.simps [of w k1 off k2 off])
    next
      case True
      from ne have lt: "off < length c1" by (cases "off < length c1") (auto simp: b1_def)
      from ne have pos: "0 < length b1" by simp
      have m: "length c1 - (off + length b1) < length c1 - off" using lt pos by linarith
      have IH: "fst (compare_loop w2 k1 (off + length b1) k2 (off + length b1))
           = (if drop (off + length b1) c1 = drop (off + length b1) c2 then SUCCESS
              else ERROR_FILES_DIFFER)
         \<and> fs (snd (compare_loop w2 k1 (off + length b1) k2 (off + length b1))) = fs w2"
        using less.hyps [OF m, of w2] less.prems w2_fs by simp
      have unfold: "compare_loop w k1 off k2 off
               = compare_loop w2 k1 (off + length b1) k2 (off + length b1)"
        using True ne len r1 r2 by (simp add: compare_loop.simps [of w k1 off k2 off])
      have eq: "(drop off c1 = drop off c2)
                  = (drop (off + length b1) c1 = drop (off + length b1) c2)"
      proof -
        have "(drop off c1 = drop off c2)
                = (b1 @ drop (off + length b1) c1 = b1 @ drop (off + length b1) c2)"
          using s1 s2 True by metis
        then show ?thesis by (simp only: same_append_eq)
      qed
      show ?thesis unfolding unfold using IH eq w2_fs by simp
    qed
  qed
qed

lemma compare_loop_sound:
  "compare_loop w k1 o1 k2 o2 = (SUCCESS, w') \<Longrightarrow>
     \<exists>c1 m1 c2 m2. fs w k1 = Some (File c1 m1) \<and> fs w k2 = Some (File c2 m2)
        \<and> drop o1 c1 = drop o2 c2"
proof (induction w k1 o1 k2 o2 rule: compare_loop.induct)
  case (1 w fd1 off1 fd2 off2)
  obtain r1 w1 where r1: "sys_read w fd1 off1 = (r1, w1)" by (cases "sys_read w fd1 off1")
  obtain r2 w2 where r2: "sys_read w1 fd2 off2 = (r2, w2)" by (cases "sys_read w1 fd2 off2")
  from "1.prems" r1 r2 obtain b1 b2 where b: "r1 = Inr b1" "r2 = Inr b2" "length b1 = length b2"
    by (cases r1; cases r2) (auto simp: compare_loop.simps [of w fd1 off1 fd2 off2] split: if_splits)
  have w1: "fs w1 = fs w" using r1 sys_read_fs [of w fd1 off1] by simp
  from sys_read_Inr [of w fd1 off1 b1] r1 b obtain c1 m1 where
    c1: "fs w fd1 = Some (File c1 m1)" "b1 = take BUFFER_SIZE (drop off1 c1)" by auto
  from sys_read_Inr [of w1 fd2 off2 b2] r2 b w1 obtain c2 m2 where
    c2: "fs w fd2 = Some (File c2 m2)" "b2 = take BUFFER_SIZE (drop off2 c2)" by auto
  have w2: "fs w2 = fs w" using r2 w1 sys_read_fs [of w1 fd2 off2] by simp
  have s1: "drop off1 c1 = b1 @ drop (off1 + length b1) c1"
    using take_chunk_split [OF c1(2)] by (simp add: add.commute)
  have s2: "drop off2 c2 = b2 @ drop (off2 + length b2) c2"
    using take_chunk_split [OF c2(2)] by (simp add: add.commute)
  show ?case
  proof (cases "b1 = []")
    case True
    then have "b2 = []" using b by simp
    with True c1 c2 have "drop off1 c1 = []" "drop off2 c2 = []"
      using take_chunk_empty [OF BUFFER_SIZE_pos] by metis+
    with c1 c2 show ?thesis by simp
  next
    case False
    with "1.prems" r1 r2 b have eq: "b1 = b2"
      and rec: "compare_loop w2 fd1 (off1 + length b1) fd2 (off2 + length b2) = (SUCCESS, w')"
      by (auto simp: compare_loop.simps [of w fd1 off1 fd2 off2] split: if_splits)
    have "\<exists>c1 m1 c2 m2. fs w2 fd1 = Some (File c1 m1) \<and> fs w2 fd2 = Some (File c2 m2)
        \<and> drop (off1 + length b1) c1 = drop (off2 + length b2) c2"
      using "1.IH" [OF r1 [symmetric] refl r2 [symmetric] refl] b False eq rec by simp
    with w2 c1 c2 have "drop (off1 + length b1) c1 = drop (off2 + length b2) c2" by simp
    with s1 s2 eq have "drop off1 c1 = drop off2 c2" by simp
    with c1 c2 show ?thesis by simp
  qed
qed


lemma compare_loop_fs: "fs (snd (compare_loop w k1 o1 k2 o2)) = fs w"
proof (induction w k1 o1 k2 o2 rule: compare_loop.induct)
  case (1 w fd1 off1 fd2 off2)
  obtain r1 w1 where r1: "sys_read w fd1 off1 = (r1, w1)" by (cases "sys_read w fd1 off1")
  obtain r2 w2 where r2: "sys_read w1 fd2 off2 = (r2, w2)" by (cases "sys_read w1 fd2 off2")
  have w2: "fs w2 = fs w"
    using r1 r2 sys_read_fs [of w fd1 off1] sys_read_fs [of w1 fd2 off2] by simp
  show ?case
  proof (cases "\<not> isl r1 \<and> \<not> isl r2 \<and> length (projr r1) = length (projr r2)
                 \<and> projr r1 \<noteq> [] \<and> projr r1 = projr r2")
    case True
    then have "compare_loop w fd1 off1 fd2 off2
                 = compare_loop w2 fd1 (off1 + length (projr r1)) fd2 (off2 + length (projr r2))"
      using r1 r2 by (auto simp: compare_loop.simps [of w fd1 off1 fd2 off2])
    moreover have "fs (snd (compare_loop w2 fd1 (off1 + length (projr r1)) fd2
                     (off2 + length (projr r2)))) = fs w2"
      using "1.IH" [OF r1 [symmetric] refl r2 [symmetric] refl] True by auto
    ultimately show ?thesis using w2 by simp
  next
    case False
    then have "snd (compare_loop w fd1 off1 fd2 off2) = w2"
      using r1 r2 by (auto simp: compare_loop.simps [of w fd1 off1 fd2 off2])
    then show ?thesis using w2 by simp
  qed
qed

lemma compare_files_fs: "fs (snd (compare_files w file1 file2)) = fs w"
  by (simp add: compare_files_def split_beta Let_def compare_loop_fs split: sum.splits)

lemma compare_files_sound:
  assumes "compare_files w file1 file2 = (SUCCESS, w')"
  shows "\<exists>k1 k2 c1 m1 m2. namei w False file1 = Inr k1 \<and> namei w False file2 = Inr k2
           \<and> fs w k1 = Some (File c1 m1) \<and> fs w k2 = Some (File c1 m2)"
proof -
  define wa where "wa = snd (get_file_size (snd (get_file_size (snd (path_exists
                      (snd (path_exists w file1)) file2)) file1)) file2)"
  have wa: "fs wa = fs w" "env wa = env w" by (simp_all add: wa_def)
  define wb where "wb = snd (sys_open_rd wa file1)"
  have wb: "fs wb = fs w" "env wb = env w" using wa by (simp_all add: wb_def)
  define wc where "wc = snd (sys_open_rd wb file2)"
  have wc: "fs wc = fs w" using wb by (simp add: wc_def)
  from assms obtain k1 k2 where o1: "fst (sys_open_rd wa file1) = Inr k1"
    and o2: "fst (sys_open_rd wb file2) = Inr k2"
    and loop: "compare_loop wc k1 0 k2 0 = (SUCCESS, w')"
    unfolding compare_files_def wa_def wb_def wc_def
    by (auto simp: split_beta Let_def split: if_splits sum.splits)
  from sys_open_rd_Inr [OF o1] have n1: "namei w False file1 = Inr k1"
    using namei_same [OF wa] by simp
  from sys_open_rd_Inr [OF o2] have n2: "namei w False file2 = Inr k2"
    using namei_same [OF wb] by simp
  from compare_loop_sound [OF loop] wc obtain c1 m1 c2 m2 where
    "fs w k1 = Some (File c1 m1)" "fs w k2 = Some (File c2 m2)" "c1 = c2" by auto
  with n1 n2 show ?thesis by blast
qed

lemma compare_files_quiet:
  assumes "faults w Stat = []" "faults w Open = []" "faults w Read = []"
    and "namei w False file1 = Inr k1" "fs w k1 = Some (File c1 m1)"
    and "namei w False file2 = Inr k2" "fs w k2 = Some (File c2 m2)"
  shows "fst (compare_files w file1 file2)
           = (if c1 = c2 then SUCCESS else ERROR_FILES_DIFFER)"
    and "length c1 \<noteq> length c2 \<Longrightarrow>
           trace (snd (compare_files w file1 file2))
             = trace w @ [(CStat file1, 0), (CStat file2, 0), (CStat file1, 0), (CStat file2, 0)]"
proof -
  define w1 where "w1 = log (CStat file1) 0 w"
  define w2 where "w2 = log (CStat file2) 0 w1"
  define w3 where "w3 = log (CStat file1) 0 w2"
  define w4 where "w4 = log (CStat file2) 0 w3"
  define w5 where "w5 = log (COpenRd file1) 0 w4"
  define w6 where "w6 = log (COpenRd file2) 0 w5"
  note ws = w1_def w2_def w3_def w4_def w5_def w6_def
  have s1: "sys_stat w file1 = (Inr (attributes w k1 (File c1 m1)), w1)"
    using assms by (simp add: sys_stat_found w1_def)
  have s2: "sys_stat w1 file2 = (Inr (attributes w1 k2 (File c2 m2)), w2)"
    using assms by (simp add: sys_stat_found ws)
  have s3: "sys_stat w2 file1 = (Inr (attributes w2 k1 (File c1 m1)), w3)"
    using assms by (simp add: sys_stat_found ws)
  have s4: "sys_stat w3 file2 = (Inr (attributes w3 k2 (File c2 m2)), w4)"
    using assms by (simp add: sys_stat_found ws)
  have o1: "sys_open_rd w4 file1 = (Inr k1, w5)"
    using assms by (simp add: sys_open_rd_found [where n = "File c1 m1"] ws)
  have o2: "sys_open_rd w5 file2 = (Inr k2, w6)"
    using assms by (simp add: sys_open_rd_found [where n = "File c2 m2"] ws)
  have run: "compare_files w file1 file2
               = (if length c1 \<noteq> length c2 then (ERROR_FILES_DIFFER, w4)
                  else compare_loop w6 k1 0 k2 0)"
    using s1 s2 s3 s4 o1 o2
    by (simp add: compare_files_def path_exists_def get_file_size_def attributes_def)
  have w6: "faults w6 Read = []" "fs w6 k1 = Some (File c1 m1)" "fs w6 k2 = Some (File c2 m2)"
    using assms by (simp_all add: ws)
  show "fst (compare_files w file1 file2)
           = (if c1 = c2 then SUCCESS else ERROR_FILES_DIFFER)"
  proof (cases "length c1 = length c2")
    case True
    then show ?thesis using run compare_loop_quiet [OF w6 True, of 0] by simp
  next
    case False
    then show ?thesis using run by auto
  qed
  show "trace (snd (compare_files w file1 file2))
             = trace w @ [(CStat file1, 0), (CStat file2, 0), (CStat file1, 0), (CStat file2, 0)]"
    if "length c1 \<noteq> length c2"
    using that run by (simp add: ws)
qed




subsection \<open>Runs that remove nothing\<close>

text \<open>
  An event removes something when it is an \<open>unlink\<close>, an \<open>rmdir\<close>, or a
  \<open>rename\<close> that succeeded. \<open>steady w w'\<close> relates two worlds when \<open>w'\<close>
  comes after \<open>w\<close> by calls that remove nothing: the working directory and the
  other settings are the same, no fault script has grown, every directory is still a
  directory, every node is still there, and the trace has only grown by events that
  remove nothing.
\<close>

definition removes :: "event \<Rightarrow> bool" where
  "removes e =
     (case fst e of
        CUnlink p \<Rightarrow> True
      | CRmdir p \<Rightarrow> True
      | CRename old new \<Rightarrow> snd e = 0
      | _ \<Rightarrow> False)"

definition dirs_kept :: "(key \<Rightarrow> node option) \<Rightarrow> (key \<Rightarrow> node option) \<Rightarrow> bool" where
  "dirs_kept f f' = (\<forall>k. is_dir_node (f k) \<longrightarrow> is_dir_node (f' k))"

definition steady :: "world \<Rightarrow> world \<Rightarrow> bool" where
  "steady w w' =
     (env w' = env w
      \<and> (\<forall>s. faults w s = [] \<longrightarrow> faults w' s = [])
      \<and> dirs_kept (fs w) (fs w')
      \<and> (\<forall>k. fs w k \<noteq> None \<longrightarrow> fs w' k \<noteq> None)
      \<and> (\<exists>es. trace w' = trace w @ es \<and> (\<forall>e\<in>set es. \<not> removes e)))"

lemma steady_refl [simp]: "steady w w"
  by (simp add: steady_def dirs_kept_def)

lemma steady_trans: "steady w w1 \<Longrightarrow> steady w1 w2 \<Longrightarrow> steady w w2"
  unfolding steady_def dirs_kept_def by (elim conjE exE) (simp, fastforce)

lemma steadyI:
  assumes "env w' = env w" "\<And>s. faults w s = [] \<Longrightarrow> faults w' s = []"
    and "\<And>k. is_dir_node (fs w k) \<Longrightarrow> is_dir_node (fs w' k)"
    and "\<And>k. fs w k \<noteq> None \<Longrightarrow> fs w' k \<noteq> None"
    and "trace w' = trace w @ [e]" "\<not> removes e"
  shows "steady w w'"
  using assms unfolding steady_def dirs_kept_def by auto

lemma fault_faults: "faults w s = [] \<Longrightarrow> faults (snd (fault w s')) s = []"
  by (auto simp: fault_def split: list.splits)

lemma env_fs_update [simp]: "env (w\<lparr>fs := f\<rparr>) = env w"
  by (simp add: env_def)

lemma steady_stat: "steady w (snd (sys_stat w p))"
  by (rule steadyI [where e = "(CStat p, if isl (fst (sys_stat w p)) then -1 else 0)"])
     (simp_all add: sys_stat_faults removes_def)

lemma steady_open_rd: "steady w (snd (sys_open_rd w p))"
  by (rule steadyI [where e = "(COpenRd p, if isl (fst (sys_open_rd w p)) then -1 else 0)"])
     (simp_all add: sys_open_rd_def split_beta Let_def fault_faults removes_def)

lemma steady_read: "steady w (snd (sys_read w k off))"
  by (rule steadyI [where e = "(CRead k, case fst (sys_read w k off) of Inl e \<Rightarrow> -1
                                          | Inr bs \<Rightarrow> int (length bs))"])
     (simp_all add: sys_read_def split_beta Let_def fault_faults removes_def)

lemma steady_fstat: "steady w (snd (sys_fstat w k))"
  by (rule steadyI [where e = "(CFstat k, if isl (fst (sys_fstat w k)) then -1 else 0)"])
     (simp_all add: sys_fstat_def split_beta Let_def fault_faults removes_def)

lemma steady_opendir: "steady w (snd (sys_opendir w p))"
  by (rule steadyI [where e = "(COpendir p, if isl (fst (sys_opendir w p)) then -1 else 0)"])
     (simp_all add: sys_opendir_def split_beta Let_def fault_faults removes_def)

lemma dir_kept_create:
  assumes "is_dir_node (f j)" "f k = None"
  shows "is_dir_node (add_entry (f(k \<mapsto> n)) k j)"
proof -
  from assms have "j \<noteq> k" by (auto simp: is_dir_node_def)
  with assms(1) show ?thesis
    by (cases "f (butlast k)") (auto simp: add_entry_def is_dir_node_def split: node.splits)
qed

lemma add_entry_present: "f j \<noteq> None \<Longrightarrow> add_entry f k j \<noteq> None"
  by (cases "f (butlast k)") (auto simp: add_entry_def split: node.splits)

lemma present_create: "f j \<noteq> None \<Longrightarrow> add_entry (f(k \<mapsto> n)) k j \<noteq> None"
  by (rule add_entry_present) simp

lemma sys_open_wr_present:
  assumes "fs w k \<noteq> None"
  shows "fs (snd (sys_open_wr w p)) k \<noteq> None"
proof (cases "fst (fault w Open)")
  case True
  then show ?thesis using assms by (simp add: sys_open_wr_def split_beta)
next
  case nf: False
  show ?thesis
  proof (cases "namei (snd (fault w Open)) False p")
    case (Inl e)
    then show ?thesis using assms nf by (simp add: sys_open_wr_def split_beta)
  next
    case (Inr kd)
    show ?thesis
    proof (cases "fs w kd")
      case None
      then show ?thesis
        using assms nf Inr present_create [of "fs w" k]
        by (simp add: sys_open_wr_def split_beta)
    next
      case (Some n)
      then show ?thesis
        using assms nf Inr by (cases n) (auto simp: sys_open_wr_def split_beta)
    qed
  qed
qed

lemma sys_mkdir_present:
  assumes "fs w j \<noteq> None"
  shows "fs (snd (sys_mkdir w p)) j \<noteq> None"
proof (cases "fst (fault w Mkdir)")
  case True
  then show ?thesis using assms by (simp add: sys_mkdir_def split_beta)
next
  case nf: False
  show ?thesis
  proof (cases "namei (snd (fault w Mkdir)) True p")
    case (Inl e)
    then show ?thesis using assms nf by (simp add: sys_mkdir_def split_beta)
  next
    case (Inr k)
    show ?thesis
    proof (cases "fs w k")
      case None
      then show ?thesis
        using assms nf Inr present_create [of "fs w" j]
        by (auto simp: sys_mkdir_def split_beta split: option.splits node.splits)
    next
      case (Some n)
      then show ?thesis using assms nf Inr by (simp add: sys_mkdir_def split_beta)
    qed
  qed
qed

lemma steady_open_wr: "steady w (snd (sys_open_wr w p))"
proof (rule steadyI [where e = "(COpenWr p, if isl (fst (sys_open_wr w p)) then -1 else 0)"])
  fix k assume d: "is_dir_node (fs w k)"
  show "is_dir_node (fs (snd (sys_open_wr w p)) k)"
  proof (cases "fst (fault w Open)")
    case True
    then show ?thesis using d by (simp add: sys_open_wr_def split_beta)
  next
    case nf: False
    show ?thesis
    proof (cases "namei (snd (fault w Open)) False p")
      case (Inl e)
      then show ?thesis using d nf by (simp add: sys_open_wr_def split_beta)
    next
      case (Inr kd)
      show ?thesis
      proof (cases "fs w kd")
        case None
        then show ?thesis
          using d nf Inr dir_kept_create [OF d None]
          by (simp add: sys_open_wr_def split_beta)
      next
        case (Some n)
        then show ?thesis
          using d nf Inr
          by (cases n) (auto simp: sys_open_wr_def split_beta is_dir_node_def)
      qed
    qed
  qed
next
  fix k assume "fs w k \<noteq> None"
  then show "fs (snd (sys_open_wr w p)) k \<noteq> None" by (rule sys_open_wr_present)
qed (auto simp: sys_open_wr_def split_beta Let_def fault_faults removes_def
          split: sum.splits option.splits node.splits)

lemma steady_write: "steady w (snd (sys_write w k off bs))"
proof (rule steadyI [where e = "(CWrite k (length bs), fst (sys_write w k off bs))"])
  fix j assume "is_dir_node (fs w j)"
  then show "is_dir_node (fs (snd (sys_write w k off bs)) j)"
    by (auto simp: sys_write_def split_beta Let_def is_dir_node_def
             split: option.splits node.splits)
qed (auto simp: sys_write_def split_beta Let_def fault_faults removes_def
          split: option.splits node.splits)

lemma steady_fchmod: "steady w (snd (sys_fchmod w k m))"
proof (rule steadyI [where e = "(CFchmod k m, fst (sys_fchmod w k m))"])
  fix j assume "is_dir_node (fs w j)"
  then show "is_dir_node (fs (snd (sys_fchmod w k m)) j)"
    by (auto simp: sys_fchmod_def split_beta Let_def is_dir_node_def set_perm_def
             split: option.splits node.splits)
qed (auto simp: sys_fchmod_def split_beta Let_def fault_faults removes_def
          split: option.splits node.splits)

lemma steady_mkdir: "steady w (snd (sys_mkdir w p))"
proof (rule steadyI [where e = "(CMkdir p, if fst (sys_mkdir w p) = None then 0 else -1)"])
  fix j assume d: "is_dir_node (fs w j)"
  show "is_dir_node (fs (snd (sys_mkdir w p)) j)"
  proof (cases "fst (fault w Mkdir)")
    case True
    then show ?thesis using d by (simp add: sys_mkdir_def split_beta)
  next
    case nf: False
    show ?thesis
    proof (cases "namei (snd (fault w Mkdir)) True p")
      case (Inl e)
      then show ?thesis using d nf by (simp add: sys_mkdir_def split_beta)
    next
      case (Inr k)
      show ?thesis
      proof (cases "fs w k")
        case None
        then show ?thesis
          using d nf Inr dir_kept_create [OF d None]
          by (auto simp: sys_mkdir_def split_beta split: option.splits node.splits)
      next
        case (Some n)
        then show ?thesis using d nf Inr by (simp add: sys_mkdir_def split_beta)
      qed
    qed
  qed
next
  fix k assume "fs w k \<noteq> None"
  then show "fs (snd (sys_mkdir w p)) k \<noteq> None" by (rule sys_mkdir_present)
qed (auto simp: sys_mkdir_def split_beta Let_def fault_faults removes_def
          split: sum.splits option.splits node.splits)


lemma walk_kept:
  "dirs_kept f f' \<Longrightarrow> walk f k cs = Inr k' \<Longrightarrow> walk f' k cs = Inr k'"
proof (induction cs arbitrary: k)
  case Nil
  then show ?case by simp
next
  case (Cons c cs)
  from Cons.prems(2) obtain m d es where dk: "f k = Some (Dir m d es)"
    and rest: "walk f (step k c) cs = Inr k'"
    and short: "\<not> NAME_MAX < length c"
    by (auto split: option.splits node.splits if_splits)
  from dk Cons.prems(1) have "is_dir_node (f' k)"
    by (simp add: dirs_kept_def is_dir_node_def)
  then obtain m' d' es' where "f' k = Some (Dir m' d' es')"
    by (auto simp: is_dir_node_def split: option.splits node.splits)
  with Cons.IH [OF Cons.prems(1) rest] short show ?case by simp
qed

lemma namei_steady:
  assumes "steady w w'" "namei w b p = Inr k"
  shows "namei w' b p = Inr k"
proof -
  from assms(1) have e: "cwd w' = cwd w" and d: "dirs_kept (fs w) (fs w')"
    by (simp_all add: steady_def env_def)
  from assms(2) show ?thesis
    using walk_kept [OF d] e by (auto simp: namei_def split: if_splits)
qed

lemma steady_quiet: "steady w w' \<Longrightarrow> faults w s = [] \<Longrightarrow> faults w' s = []"
  by (simp add: steady_def)

lemma steady_path_exists: "steady w (snd (path_exists w p))"
  by (simp add: path_exists_def split_beta steady_stat)

lemma steady_get_file_size: "steady w (snd (get_file_size w p))"
  by (simp add: get_file_size_def split_beta steady_stat split: sum.splits)

lemma steady_is_directory: "steady w (snd (is_directory w p))"
  by (simp add: is_directory_def split_beta steady_stat split: sum.splits)

lemma steady_copy_loop:
  assumes "copy_loop w s so d off = Some y"
  shows "steady w (snd y)"
proof (rule copy_loop.raw_induct [where P = "\<lambda>w s so d off y. steady w (snd y)", OF _ assms])
  fix copy_loop' :: "world \<Rightarrow> key \<Rightarrow> nat \<Rightarrow> key \<Rightarrow> nat \<Rightarrow> (int \<times> world) option"
    and w s so d off y
  assume IH: "\<And>w' s' so' d' off' y'.
                copy_loop' w' s' so' d' off' = Some y' \<Longrightarrow> steady w' (snd y')"
  assume run: "(let (r, w) = sys_read w s so in
      if isl r then Some (ERROR_FILE_READ, w)
      else if projr r = [] then Some (SUCCESS, w)
      else
        (let (bytes_written, w) = sys_write w d off (projr r) in
         if bytes_written \<noteq> int (length (projr r)) then Some (ERROR_FILE_WRITE, w)
         else copy_loop' w s (so + length (projr r)) d (off + length (projr r)))) = Some y"
  define r where "r = fst (sys_read w s so)"
  define w1 where "w1 = snd (sys_read w s so)"
  define bw where "bw = fst (sys_write w1 d off (projr r))"
  define w2 where "w2 = snd (sys_write w1 d off (projr r))"
  have s1: "steady w w1" unfolding w1_def by (rule steady_read)
  have s2: "steady w w2"
    unfolding w2_def by (rule steady_trans [OF s1 steady_write])
  from run have body: "(if isl r then Some (ERROR_FILE_READ, w1)
       else if projr r = [] then Some (SUCCESS, w1)
       else if bw \<noteq> int (length (projr r)) then Some (ERROR_FILE_WRITE, w2)
       else copy_loop' w2 s (so + length (projr r)) d (off + length (projr r))) = Some y"
    unfolding r_def w1_def bw_def w2_def by (simp only: split_beta Let_def)
  show "steady w (snd y)"
  proof (cases "isl r \<or> projr r = []")
    case True
    with body have "snd y = w1" by (cases "isl r") auto
    with s1 show ?thesis by simp
  next
    case False
    show ?thesis
    proof (cases "bw \<noteq> int (length (projr r))")
      case True
      with body False have "snd y = w2" by auto
      with s2 show ?thesis by simp
    next
      case ok: False
      with body False
      have "copy_loop' w2 s (so + length (projr r)) d (off + length (projr r)) = Some y"
        by simp
      from IH [OF this] have "steady w2 (snd y)" .
      with s2 show ?thesis by (rule steady_trans)
    qed
  qed
qed

lemma steady_copy_file:
  assumes "copy_file w src_path dest_path = Some y"
  shows "steady w (snd y)"
proof -
  define w1 where "w1 = snd (get_file_size w src_path)"
  define w2 where "w2 = snd (sys_open_rd w1 src_path)"
  define w3 where "w3 = snd (sys_stat w2 dest_path)"
  define final where "final = final_dest_path
       (case fst (sys_stat w2 dest_path) of Inl e \<Rightarrow> False | Inr st \<Rightarrow> st_is_dir st)
       src_path dest_path"
  define w4 where "w4 = snd (sys_open_wr w3 final)"
  have s2: "steady w w2"
    unfolding w2_def w1_def by (rule steady_trans [OF steady_get_file_size steady_open_rd])
  have s3: "steady w w3" unfolding w3_def by (rule steady_trans [OF s2 steady_stat])
  have s4: "steady w w4" unfolding w4_def by (rule steady_trans [OF s3 steady_open_wr])
  show ?thesis
  proof (cases "fst (sys_open_rd w1 src_path)")
    case (Inl e)
    with assms have "y = (ERROR_FILE_OPEN, w2)"
      by (simp add: copy_file_def split_beta w1_def w2_def)
    with s2 show ?thesis by simp
  next
    case src: (Inr src_fd)
    show ?thesis
    proof (cases "fst (sys_open_wr w3 final)")
      case (Inl e)
      with assms src have "y = (ERROR_FILE_OPEN, w4)"
        by (simp add: copy_file_def split_beta Let_def w1_def w2_def w3_def w4_def final_def)
      with s4 show ?thesis by simp
    next
      case dest: (Inr dest_fd)
      note defs = copy_file_def split_beta Let_def w1_def w2_def w3_def w4_def final_def
      show ?thesis
      proof (cases "copy_loop w4 src_fd 0 dest_fd 0")
        case None
        with assms src dest show ?thesis by (simp add: defs)
      next
        case (Some res)
        obtain rc w5 where res: "res = (rc, w5)" by (cases res)
        have s5: "steady w w5"
          using steady_trans [OF s4 steady_copy_loop [OF Some]] res by simp
        have s6: "steady w (snd (sys_fstat w5 src_fd))"
          by (rule steady_trans [OF s5 steady_fstat])
        show ?thesis
        proof (cases "rc = SUCCESS")
          case False
          with assms src dest Some res have "y = (rc, w5)" by (simp add: defs)
          with s5 show ?thesis by simp
        next
          case True
          show ?thesis
          proof (cases "fst (sys_fstat w5 src_fd)")
            case (Inl e)
            with assms src dest Some res True
            have "y = (SUCCESS, snd (sys_fstat w5 src_fd))" by (simp add: defs)
            with s6 show ?thesis by simp
          next
            case (Inr b)
            with assms src dest Some res True
            have "y = (SUCCESS, snd (sys_fchmod (snd (sys_fstat w5 src_fd)) dest_fd (st_perm b)))"
              by (simp add: defs)
            then show ?thesis using steady_trans [OF s6 steady_fchmod] by simp
          qed
        qed
      qed
    qed
  qed
qed

subsection \<open>Copying a file\<close>

lemma sys_write_done:
  assumes "fst (sys_write w k off bs) = int (length bs)"
  shows "\<exists>c m. fs w k = Some (File c m)
           \<and> fs (snd (sys_write w k off bs)) = (fs w)(k \<mapsto> File (write_at c off bs) m)"
proof (cases "fst (fault w Write)")
  case True
  with assms show ?thesis by (simp add: sys_write_def split_beta)
next
  case False
  with assms show ?thesis
    by (cases "fs w k") (auto simp: sys_write_def split_beta split: node.splits)
qed

lemma write_at_end: "write_at d (length d) bs = d @ bs"
  by (simp add: write_at_def)

lemma copy_loop_content:
  assumes "copy_loop w ks so kd off = Some y"
  shows "\<forall>d md. fst y = SUCCESS \<longrightarrow> ks \<noteq> kd \<longrightarrow> fs w kd = Some (File d md)
           \<longrightarrow> off = length d
           \<longrightarrow> (\<exists>c ms. fs w ks = Some (File c ms)
                  \<and> fs (snd y) = (fs w)(kd \<mapsto> File (d @ drop so c) md))"
proof (rule copy_loop.raw_induct [where P = "\<lambda>w ks so kd off y.
         \<forall>d md. fst y = SUCCESS \<longrightarrow> ks \<noteq> kd \<longrightarrow> fs w kd = Some (File d md)
           \<longrightarrow> off = length d
           \<longrightarrow> (\<exists>c ms. fs w ks = Some (File c ms)
                  \<and> fs (snd y) = (fs w)(kd \<mapsto> File (d @ drop so c) md))", OF _ assms])
  fix copy_loop' :: "world \<Rightarrow> key \<Rightarrow> nat \<Rightarrow> key \<Rightarrow> nat \<Rightarrow> (int \<times> world) option"
    and w ks so kd off y
  assume IH: "\<And>w' ks' so' kd' off' y'. copy_loop' w' ks' so' kd' off' = Some y' \<Longrightarrow>
         \<forall>d md. fst y' = SUCCESS \<longrightarrow> ks' \<noteq> kd' \<longrightarrow> fs w' kd' = Some (File d md)
           \<longrightarrow> off' = length d
           \<longrightarrow> (\<exists>c ms. fs w' ks' = Some (File c ms)
                  \<and> fs (snd y') = (fs w')(kd' \<mapsto> File (d @ drop so' c) md))"
  assume run: "(let (r, w) = sys_read w ks so in
      if isl r then Some (ERROR_FILE_READ, w)
      else if projr r = [] then Some (SUCCESS, w)
      else
        (let (bytes_written, w) = sys_write w kd off (projr r) in
         if bytes_written \<noteq> int (length (projr r)) then Some (ERROR_FILE_WRITE, w)
         else copy_loop' w ks (so + length (projr r)) kd (off + length (projr r)))) = Some y"
  define r where "r = fst (sys_read w ks so)"
  define w1 where "w1 = snd (sys_read w ks so)"
  define bw where "bw = fst (sys_write w1 kd off (projr r))"
  define w2 where "w2 = snd (sys_write w1 kd off (projr r))"
  from run have body: "(if isl r then Some (ERROR_FILE_READ, w1)
       else if projr r = [] then Some (SUCCESS, w1)
       else if bw \<noteq> int (length (projr r)) then Some (ERROR_FILE_WRITE, w2)
       else copy_loop' w2 ks (so + length (projr r)) kd (off + length (projr r))) = Some y"
    unfolding r_def w1_def bw_def w2_def by (simp only: split_beta Let_def)
  have fs1: "fs w1 = fs w" by (simp add: w1_def)
  show "\<forall>d md. fst y = SUCCESS \<longrightarrow> ks \<noteq> kd \<longrightarrow> fs w kd = Some (File d md)
           \<longrightarrow> off = length d
           \<longrightarrow> (\<exists>c ms. fs w ks = Some (File c ms)
                  \<and> fs (snd y) = (fs w)(kd \<mapsto> File (d @ drop so c) md))"
  proof (intro allI impI)
    fix d md
    assume ok: "fst y = SUCCESS" and ne: "ks \<noteq> kd" and dk: "fs w kd = Some (File d md)"
      and off: "off = length d"
    from body ok have nr: "\<not> isl r" by (cases "isl r") auto
    then obtain bs where bs: "r = Inr bs" by (cases r) auto
    from sys_read_Inr [of w ks so bs] bs obtain c ms where
      c: "fs w ks = Some (File c ms)" "bs = take BUFFER_SIZE (drop so c)"
      by (auto simp: r_def)
    show "\<exists>c ms. fs w ks = Some (File c ms)
            \<and> fs (snd y) = (fs w)(kd \<mapsto> File (d @ drop so c) md)"
    proof (cases "bs = []")
      case True
      with body bs have y: "snd y = w1" by auto
      from True c have "drop so c = []"
        using take_chunk_empty [OF BUFFER_SIZE_pos, of "drop so c"] by simp
      with y fs1 dk c show ?thesis by (auto simp: fun_upd_idem)
    next
      case False
      with body bs ok have bw: "bw = int (length bs)" by (cases "bw = int (length bs)") auto
      with body bs False
      have rec: "copy_loop' w2 ks (so + length bs) kd (off + length bs) = Some y" by simp
      from bw have "fst (sys_write w1 kd off bs) = int (length bs)"
        by (simp add: bw_def bs)
      from sys_write_done [OF this] fs1 dk
      have fs2: "fs w2 = (fs w)(kd \<mapsto> File (d @ bs) md)"
        by (simp add: w2_def bs off write_at_end)
      have k2: "fs w2 kd = Some (File (d @ bs) md)" using fs2 by simp
      from IH [OF rec] ok ne k2 off obtain c' ms' where
        c': "fs w2 ks = Some (File c' ms')"
        and y: "fs (snd y) = (fs w2)(kd \<mapsto> File ((d @ bs) @ drop (so + length bs) c') md)"
        by auto
      from c' fs2 ne c have cc: "c' = c" by simp
      have "bs @ drop (so + length bs) c = drop so c"
        using take_chunk_split [OF c(2)] by (simp add: add.commute)
      then have "(d @ bs) @ drop (so + length bs) c = d @ drop so c" by simp
      with y cc fs2 c show ?thesis by simp
    qed
  qed
qed

lemma copy_loop_empty:
  assumes "copy_loop w k so kd off = Some (SUCCESS, w')" "fs w k = Some (File [] m)"
  shows "fs w' = fs w"
proof -
  define r where "r = fst (sys_read w k so)"
  define w1 where "w1 = snd (sys_read w k so)"
  have fs1: "fs w1 = fs w" by (simp add: w1_def)
  have "r = Inl EIO \<or> r = Inr []"
    using assms(2)
    by (simp add: r_def sys_read_def split_beta Let_def)
  then have "w' = w1"
    using assms(1) by (auto simp: copy_loop.simps [of w k so kd off] split_beta r_def w1_def)
  with fs1 show ?thesis by simp
qed


lemma namei_fault [simp]: "namei (snd (fault w s)) b p = namei w b p"
  by (simp add: namei_def)

lemma add_entry_file:
  "add_entry f k j = Some (File c m) \<longleftrightarrow> f j = Some (File c m)"
  by (cases "f (butlast k)") (auto simp: add_entry_def split: node.splits)

lemma sys_open_wr_Inr:
  assumes "fst (sys_open_wr w p) = Inr kd"
  shows "namei w False p = Inr kd"
    and "\<exists>m. fs (snd (sys_open_wr w p)) kd = Some (File [] m)"
    and "\<And>k c m. k \<noteq> kd \<Longrightarrow>
           fs (snd (sys_open_wr w p)) k = Some (File c m) \<longleftrightarrow> fs w k = Some (File c m)"
    and "\<And>c m. fs w kd = Some (File c m) \<Longrightarrow>
           fs (snd (sys_open_wr w p)) = (fs w)(kd \<mapsto> File [] m)"
proof -
  from assms have nf: "\<not> fst (fault w Open)"
    by (cases "fst (fault w Open)") (auto simp: sys_open_wr_def split_beta)
  from assms nf obtain k where k: "namei w False p = Inr k"
    by (cases "namei w False p") (auto simp: sys_open_wr_def split_beta)
  from assms nf k have kk: "k = kd"
    by (cases "fs w k")
       (auto simp: sys_open_wr_def split_beta split: node.splits if_splits)
  from k kk show "namei w False p = Inr kd" by simp
  show "\<exists>m. fs (snd (sys_open_wr w p)) kd = Some (File [] m)"
    using assms nf k kk
    by (cases "fs w k")
       (auto simp: sys_open_wr_def split_beta add_entry_file split: node.splits if_splits)
  show "fs (snd (sys_open_wr w p)) j = Some (File c m) \<longleftrightarrow> fs w j = Some (File c m)"
    if "j \<noteq> kd" for j c m
    using assms nf k kk that
    by (cases "fs w k")
       (auto simp: sys_open_wr_def split_beta add_entry_file split: node.splits if_splits)
  show "fs (snd (sys_open_wr w p)) = (fs w)(kd \<mapsto> File [] m)"
    if "fs w kd = Some (File c m)" for c m
    using assms nf k kk that by (simp add: sys_open_wr_def split_beta)
qed

lemma sys_open_wr_existing:
  assumes "faults w Open = []" "namei w False p = Inr k" "fs w k = Some (File c m)"
  shows "sys_open_wr w p = (Inr k, log (COpenWr p) 0 (w\<lparr>fs := (fs w)(k \<mapsto> File [] m)\<rparr>))"
  using assms by (simp add: sys_open_wr_def fault_quiet)

lemma sys_fstat_keeps [simp]:
  "fs (snd (sys_fstat w k)) = fs w"
  "trace (snd (sys_fstat w k)) = trace w @ [(CFstat k, if isl (fst (sys_fstat w k)) then -1 else 0)]"
  by (simp_all add: sys_fstat_def split_beta Let_def)

lemma sys_fstat_Inr:
  "fst (sys_fstat w k) = Inr b \<Longrightarrow> \<exists>n. fs w k = Some n \<and> b = attributes w k n"
  by (auto simp: sys_fstat_def split_beta Let_def attributes_def
           split: if_splits option.splits node.splits)

lemma sys_fstat_quiet:
  "faults w Fstat = [] \<Longrightarrow> fs w k = Some n \<Longrightarrow> fst (sys_fstat w k) = Inr (attributes w k n)"
  by (simp add: sys_fstat_def fault_quiet)

lemma sys_fchmod_trace [simp]:
  "trace (snd (sys_fchmod w k m)) = trace w @ [(CFchmod k m, fst (sys_fchmod w k m))]"
  by (auto simp: sys_fchmod_def split_beta split: option.splits)

lemma sys_fchmod_file:
  assumes "fs w k = Some (File c m0)"
  shows "fs (snd (sys_fchmod w k m)) = fs w \<or> fs (snd (sys_fchmod w k m)) = (fs w)(k \<mapsto> File c m)"
    and "faults w Fchmod = [] \<Longrightarrow> fs (snd (sys_fchmod w k m)) = (fs w)(k \<mapsto> File c m)"
  using assms
  by (auto simp: sys_fchmod_def split_beta set_perm_def fault_quiet)

lemma st_perm_file [simp]: "st_perm (attributes w k (File c m)) = m"
  by (simp add: attributes_def)

lemma namei_Inr_length: "namei w b p = Inr k \<Longrightarrow> length p < MAX_PATH"
  by (auto simp: namei_def split: if_splits)

lemma stat_is_dir:
  "(case fst (sys_stat w p) of Inl e \<Rightarrow> False | Inr st \<Rightarrow> st_is_dir st)
     \<Longrightarrow> names_directory w p"
  by (cases "fst (fault w Stat)")
     (auto simp: sys_stat_def split_beta Let_def attributes_def names_directory_def
                 is_dir_node_def namei_fault
           split: sum.splits option.splits node.splits)

lemma sys_open_wr_dir:
  assumes "namei w False p = Inr k" "is_dir_node (fs w k)"
  shows "isl (fst (sys_open_wr w p))"
  using assms
  by (cases "fst (fault w Open)")
     (auto simp: sys_open_wr_def split_beta is_dir_node_def namei_fault
           split: option.splits node.splits)

lemma copy_file_result:
  assumes run: "copy_file w src_path dest_path = Some (SUCCESS, w')"
  shows "\<exists>final ks kd c ms md.
           (final = final_dest_path False src_path dest_path
              \<or> final = final_dest_path True src_path dest_path)
         \<and> final = final_dest_path (names_directory w dest_path) src_path dest_path
         \<and> namei w False src_path = Inr ks \<and> namei w False final = Inr kd
         \<and> fs w' ks = Some (File c ms) \<and> fs w' kd = Some (File c md)
         \<and> (ks \<noteq> kd \<longrightarrow> fs w ks = Some (File c ms))
         \<and> (faults w Fstat = [] \<and> faults w Fchmod = [] \<longrightarrow> md = ms)"
proof -
  define w1 where "w1 = snd (get_file_size w src_path)"
  define w2 where "w2 = snd (sys_open_rd w1 src_path)"
  define w3 where "w3 = snd (sys_stat w2 dest_path)"
  define final where "final = final_dest_path
       (case fst (sys_stat w2 dest_path) of Inl e \<Rightarrow> False | Inr st \<Rightarrow> st_is_dir st)
       src_path dest_path"
  define w4 where "w4 = snd (sys_open_wr w3 final)"
  note defs = copy_file_def split_beta Let_def w1_def w2_def w3_def w4_def final_def
  have fin: "final = final_dest_path False src_path dest_path
              \<or> final = final_dest_path True src_path dest_path"
    unfolding final_def
    by (cases "case fst (sys_stat w2 dest_path) of Inl e \<Rightarrow> False | Inr st \<Rightarrow> st_is_dir st")
       simp_all
  have f1: "fs w1 = fs w" "env w1 = env w" by (simp_all add: w1_def)
  have f2: "fs w2 = fs w" "env w2 = env w" using f1 by (simp_all add: w2_def)
  have f3: "fs w3 = fs w" "env w3 = env w" using f2 by (simp_all add: w3_def)
  have s1: "steady w w1" unfolding w1_def by (rule steady_get_file_size)
  have s2: "steady w w2" unfolding w2_def by (rule steady_trans [OF s1 steady_open_rd])
  have s3: "steady w w3" unfolding w3_def by (rule steady_trans [OF s2 steady_stat])
  have s4: "steady w w4" unfolding w4_def by (rule steady_trans [OF s3 steady_open_wr])
  from run obtain ks where src: "fst (sys_open_rd w1 src_path) = Inr ks"
    by (cases "fst (sys_open_rd w1 src_path)") (simp_all add: defs)
  from run src obtain kd where dest: "fst (sys_open_wr w3 final) = Inr kd"
    by (cases "fst (sys_open_wr w3 final)") (simp_all add: defs)
  from run src dest obtain res where loop0: "copy_loop w4 ks 0 kd 0 = Some res"
    by (cases "copy_loop w4 ks 0 kd 0") (simp_all add: defs)
  obtain rc w5 where res: "res = (rc, w5)" by (cases res)
  from run src dest loop0 res have rc: "rc = SUCCESS"
    by (cases "rc = SUCCESS") (simp_all add: defs)
  have loop: "copy_loop w4 ks 0 kd 0 = Some (SUCCESS, w5)" using loop0 res rc by simp
  define w6 where "w6 = snd (sys_fstat w5 ks)"
  have f6: "fs w6 = fs w5" by (simp add: w6_def)
  have s5: "steady w w5" using steady_trans [OF s4 steady_copy_loop [OF loop]] by simp
  have s6: "steady w w6"
    unfolding w6_def by (rule steady_trans [OF s5 steady_fstat])
  have n_src: "namei w False src_path = Inr ks"
    using sys_open_rd_Inr [OF src] namei_same [OF f1] by simp
  have n_dst: "namei w False final = Inr kd"
    using sys_open_wr_Inr(1) [OF dest] namei_same [OF f3] by simp
  have branch: "final = final_dest_path (names_directory w dest_path) src_path dest_path"
  proof (cases "case fst (sys_stat w2 dest_path) of Inl e \<Rightarrow> False | Inr st \<Rightarrow> st_is_dir st")
    case True
    from stat_is_dir [OF True] have "names_directory w dest_path"
      using namei_same [OF f2, of False dest_path] f2(1)
      by (auto simp: names_directory_def split: sum.splits)
    with True show ?thesis by (simp add: final_def)
  next
    case False
    have "\<not> names_directory w dest_path"
    proof
      assume nd: "names_directory w dest_path"
      then obtain k where k: "namei w False dest_path = Inr k" "is_dir_node (fs w k)"
        by (auto simp: names_directory_def split: sum.splits)
      have "final = dest_path"
        using False namei_Inr_length [OF k(1)] by (simp add: final_def final_dest_path_def)
      moreover have "isl (fst (sys_open_wr w3 dest_path))"
        using sys_open_wr_dir [of w3 dest_path k] k namei_same [OF f3] f3(1) by simp
      ultimately show False using dest by simp
    qed
    with False show ?thesis by (simp add: final_def)
  qed
  obtain md0 where d4: "fs w4 kd = Some (File [] md0)"
    using sys_open_wr_Inr(2) [OF dest] by (auto simp: w4_def)
  \<comment> \<open>the file system after the loop\<close>
  have "\<exists>c ms md. fs w5 ks = Some (File c ms) \<and> fs w5 kd = Some (File c md)
           \<and> (ks \<noteq> kd \<longrightarrow> fs w ks = Some (File c ms))"
  proof (cases "ks = kd")
    case True
    with copy_loop_empty [OF loop] d4 show ?thesis by auto
  next
    case False
    from copy_loop_content [OF loop] False d4 obtain c ms where
      c: "fs w4 ks = Some (File c ms)" and a5: "fs w5 = (fs w4)(kd \<mapsto> File c md0)"
      by auto
    from c False sys_open_wr_Inr(3) [OF dest, of ks c ms] f3
    have "fs w ks = Some (File c ms)" by (simp add: w4_def)
    with c a5 False show ?thesis by auto
  qed
  then obtain c ms md5 where a5: "fs w5 ks = Some (File c ms)" "fs w5 kd = Some (File c md5)"
    and orig: "ks \<noteq> kd \<longrightarrow> fs w ks = Some (File c ms)" by blast
  \<comment> \<open>the permission bits\<close>
  have "\<exists>ms' md. fs w' ks = Some (File c ms') \<and> fs w' kd = Some (File c md)
           \<and> (ks \<noteq> kd \<longrightarrow> ms' = ms)
           \<and> (faults w Fstat = [] \<and> faults w Fchmod = [] \<longrightarrow> md = ms')"
  proof (cases "fst (sys_fstat w5 ks)")
    case (Inl e)
    with run src dest loop have w': "w' = w6" by (simp add: defs w6_def)
    have "faults w Fstat = [] \<Longrightarrow> False"
    proof -
      assume "faults w Fstat = []"
      then have "faults w5 Fstat = []" using steady_quiet [OF s5] by simp
      from sys_fstat_quiet [OF this a5(1)] Inl show False by simp
    qed
    with w' f6 a5 show ?thesis by auto
  next
    case (Inr b)
    with run src dest loop
    have w': "w' = snd (sys_fchmod w6 kd (st_perm b))" by (simp add: defs w6_def)
    from sys_fstat_Inr [OF Inr] a5 have b: "st_perm b = ms" by auto
    have k6: "fs w6 kd = Some (File c md5)" using f6 a5 by simp
    have q: "faults w Fchmod = [] \<Longrightarrow> faults w6 Fchmod = []"
      using steady_quiet [OF s6] by simp
    from sys_fchmod_file [OF k6, of ms] b w' q
    consider "fs w' = fs w5" "faults w Fchmod \<noteq> []"
      | "fs w' = (fs w5)(kd \<mapsto> File c ms)"
      using f6 by auto
    then show ?thesis
    proof cases
      case 1
      with a5 show ?thesis by auto
    next
      case 2
      with a5 show ?thesis by (cases "ks = kd") auto
    qed
  qed
  with fin branch n_src n_dst orig show ?thesis by blast
qed


lemma snd_get_file_size: "snd (get_file_size w p) = snd (sys_stat w p)"
  by (simp add: get_file_size_def split_beta split: sum.splits)

lemma snd_path_exists: "snd (path_exists w p) = snd (sys_stat w p)"
  by (simp add: path_exists_def split_beta)

lemma snd_is_directory: "snd (is_directory w p) = snd (sys_stat w p)"
  by (simp add: is_directory_def split_beta split: sum.splits)

lemma stat_not_dir:
  assumes "namei w False p = Inr k" "fs w k = Some (File c m)"
  shows "(case fst (sys_stat w p) of Inl e \<Rightarrow> False | Inr st \<Rightarrow> st_is_dir st) = False"
  using assms by (simp add: sys_stat_def split_beta Let_def attributes_def)

text \<open>
  Claim C1, as amended. Whenever \<open>copy_file\<close> returns \<open>SUCCESS\<close>, the source
  and the file that was written are regular files with the same content, and comparing
  them with \<open>compare_files\<close> (no call failing) returns \<open>SUCCESS\<close>; the source itself
  is unchanged unless it is the very file written. The file written is the one at the
  path the function builds in \<open>final_dest_path\<close>, of \<open>MAX_PATH - 1\<close> characters at
  most: when the destination path names an existing directory, the source's base name
  inside it, and the destination path otherwise; it is exactly that path unless the
  buffer cut it. The permission bits of the two files are equal provided \<open>fstat\<close> and
  \<open>fchmod\<close> do not fail: their failure is not reported, and \<open>SUCCESS\<close> is returned
  all the same.
\<close>

theorem copy_file_fidelity:
  assumes "copy_file w src_path dest_path = Some (SUCCESS, w')"
  shows "\<exists>final ks kd c ms md.
           final = final_dest_path (names_directory w dest_path) src_path dest_path
         \<and> (\<not> names_directory w dest_path \<and> length dest_path < MAX_PATH
              \<longrightarrow> final = dest_path)
         \<and> (names_directory w dest_path
              \<and> length dest_path + 1 + length (basename src_path) < MAX_PATH
              \<longrightarrow> final = dest_path @ ''/'' @ basename src_path)
         \<and> namei w False src_path = Inr ks \<and> namei w False final = Inr kd
         \<and> namei w' False src_path = Inr ks \<and> namei w' False final = Inr kd
         \<and> fs w' ks = Some (File c ms) \<and> fs w' kd = Some (File c md)
         \<and> fst (compare_files (w'\<lparr>faults := no_faults\<rparr>) src_path final) = SUCCESS
         \<and> (ks \<noteq> kd \<longrightarrow> fs w ks = Some (File c ms))
         \<and> (faults w Fstat = [] \<and> faults w Fchmod = [] \<longrightarrow> md = ms)"
proof -
  from copy_file_result [OF assms] obtain final ks kd c ms md where
    fin: "final = final_dest_path (names_directory w dest_path) src_path dest_path"
    and n: "namei w False src_path = Inr ks" "namei w False final = Inr kd"
    and f: "fs w' ks = Some (File c ms)" "fs w' kd = Some (File c md)"
    and o: "ks \<noteq> kd \<longrightarrow> fs w ks = Some (File c ms)"
    and p: "faults w Fstat = [] \<and> faults w Fchmod = [] \<longrightarrow> md = ms"
    by blast
  have plain: "\<not> names_directory w dest_path \<and> length dest_path < MAX_PATH
                 \<longrightarrow> final = dest_path"
    using fin by (auto simp: final_dest_path_def)
  have inside: "names_directory w dest_path
                  \<and> length dest_path + 1 + length (basename src_path) < MAX_PATH
                 \<longrightarrow> final = dest_path @ ''/'' @ basename src_path"
    using fin by (auto simp: final_dest_path_def join_path_def)
  have st: "steady w w'" using steady_copy_file [OF assms] by simp
  have n': "namei w' False src_path = Inr ks" "namei w' False final = Inr kd"
    using namei_steady [OF st] n by simp_all
  define v where "v = w'\<lparr>faults := no_faults\<rparr>"
  have v: "faults v Stat = []" "faults v Open = []" "faults v Read = []"
    "namei v False src_path = Inr ks" "namei v False final = Inr kd"
    "fs v ks = Some (File c ms)" "fs v kd = Some (File c md)"
    using n' f namei_same [of v w'] by (simp_all add: v_def no_faults_def env_def)
  have "fst (compare_files v src_path final) = SUCCESS"
    using compare_files_quiet(1) [OF v(1-3) v(4) v(6) v(5) v(7)] by simp
  with fin plain inside n n' f o p show ?thesis unfolding v_def by blast
qed

text \<open>
  The copy of \<open>/a/f\<close> to the existing directory \<open>/mnt/d\<close>, which writes
  \<open>/mnt/d/f\<close>.
\<close>

theorem copy_file_fidelity_witness:
  "copy_file demo ''/a/f'' ''/mnt/d''
     = Some (SUCCESS, snd (the (copy_file demo ''/a/f'' ''/mnt/d'')))
   \<and> names_directory demo ''/mnt/d''
   \<and> final_dest_path (names_directory demo ''/mnt/d'') ''/a/f'' ''/mnt/d'' = ''/mnt/d/f''
   \<and> (\<exists>final ks kd c ms md.
           final = final_dest_path (names_directory demo ''/mnt/d'') ''/a/f'' ''/mnt/d''
         \<and> (\<not> names_directory demo ''/mnt/d'' \<and> length ''/mnt/d'' < MAX_PATH
              \<longrightarrow> final = ''/mnt/d'')
         \<and> (names_directory demo ''/mnt/d''
              \<and> length ''/mnt/d'' + 1 + length (basename ''/a/f'') < MAX_PATH
              \<longrightarrow> final = ''/mnt/d'' @ ''/'' @ basename ''/a/f'')
         \<and> namei demo False ''/a/f'' = Inr ks \<and> namei demo False final = Inr kd
         \<and> namei (snd (the (copy_file demo ''/a/f'' ''/mnt/d''))) False ''/a/f'' = Inr ks
         \<and> namei (snd (the (copy_file demo ''/a/f'' ''/mnt/d''))) False final = Inr kd
         \<and> fs (snd (the (copy_file demo ''/a/f'' ''/mnt/d''))) ks = Some (File c ms)
         \<and> fs (snd (the (copy_file demo ''/a/f'' ''/mnt/d''))) kd = Some (File c md)
         \<and> fst (compare_files (snd (the (copy_file demo ''/a/f'' ''/mnt/d''))
                    \<lparr>faults := no_faults\<rparr>) ''/a/f'' final) = SUCCESS
         \<and> (ks \<noteq> kd \<longrightarrow> fs demo ks = Some (File c ms))
         \<and> (faults demo Fstat = [] \<and> faults demo Fchmod = [] \<longrightarrow> md = ms))"
proof -
  have r: "copy_file demo ''/a/f'' ''/mnt/d''
             = Some (SUCCESS, snd (the (copy_file demo ''/a/f'' ''/mnt/d'')))"
    by (simp add: demo_defs sys_defs c_defs copy_loop.simps)
  have d: "names_directory demo ''/mnt/d''"
    by (simp add: names_directory_def demo_defs sys_defs)
  have p: "final_dest_path (names_directory demo ''/mnt/d'') ''/a/f'' ''/mnt/d'' = ''/mnt/d/f''"
    using d by (simp add: c_defs sys_defs)
  from copy_file_fidelity [OF r] r d p show ?thesis by (intro conjI)
qed

text \<open>
  The claim as stated (equal permission bits whenever \<open>SUCCESS\<close> is returned) fails
  when \<open>fchmod\<close> fails, as it does on a destination file that is writable but owned
  by someone else: the copy onto the existing \<open>/a/g\<close> (bits 0644 = 420) returns
  \<open>SUCCESS\<close>, the content is copied, and the bits stay 420, not the source's 384.
\<close>

theorem copy_file_permissions_counterexample:
  "returned (copy_file demo_chmod_fails ''/a/f'' ''/a/g'') = Some SUCCESS
   \<and> final_fs (copy_file demo_chmod_fails ''/a/f'' ''/a/g'') [''a'', ''f'']
       = Some (File [1, 2, 3] 384)
   \<and> final_fs (copy_file demo_chmod_fails ''/a/f'' ''/a/g'') [''a'', ''g'']
       = Some (File [1, 2, 3] 420)"
  by (simp add: demo_chmod_fails_def demo_defs sys_defs c_defs copy_loop.simps)

subsection \<open>Copying a file onto itself\<close>

text \<open>
  Claim C9, as amended. For every existing regular file \<open>p\<close> that the caller can open
  for reading and for writing (neither \<open>open\<close> fails, nor does the \<open>read\<close>),
  \<open>copy_file(p, p)\<close> returns \<open>SUCCESS\<close> and leaves \<open>p\<close> empty, with its
  permission bits: the trace shows the destination opened (and so truncated) before the
  only \<open>read\<close>, which returns 0 bytes; no \<open>write\<close> is made, and after the loop
  only \<open>fstat\<close> and \<open>fchmod\<close> follow. The original content is lost and no error is
  reported.
\<close>

theorem copy_file_onto_itself:
  assumes "namei w False p = Inr k" "fs w k = Some (File c m)"
    and "faults w Open = []" "faults w Read = []"
  shows "\<exists>w' s1 s2 rest.
           copy_file w p p = Some (SUCCESS, w')
         \<and> fs w' = (fs w)(k \<mapsto> File [] m)
         \<and> trace w' = trace w @ [(CStat p, s1), (COpenRd p, 0), (CStat p, s2),
                                  (COpenWr p, 0), (CRead k, 0)] @ rest
         \<and> (\<forall>e\<in>set rest. fst e = CFstat k \<or> fst e = CFchmod k m)"
proof -
  define s1 :: int where "s1 = (if isl (fst (sys_stat w p)) then -1 else 0)"
  define w1 where "w1 = snd (sys_stat w p)"
  define w2 where "w2 = log (COpenRd p) 0 w1"
  define s2 :: int where "s2 = (if isl (fst (sys_stat w2 p)) then -1 else 0)"
  define w3 where "w3 = snd (sys_stat w2 p)"
  define w4 where "w4 = log (COpenWr p) 0 (w3\<lparr>fs := (fs w3)(k \<mapsto> File [] m)\<rparr>)"
  define w5 where "w5 = log (CRead k) 0 w4"
  define w6 where "w6 = snd (sys_fstat w5 k)"
  have a1: "fs w1 = fs w" "env w1 = env w" "faults w1 Open = []" "faults w1 Read = []"
    "trace w1 = trace w @ [(CStat p, s1)]"
    using assms by (simp_all add: w1_def s1_def sys_stat_faults)
  have n1: "namei w1 False p = Inr k" using namei_same [OF a1(1,2)] assms(1) by simp
  have o1: "sys_open_rd w1 p = (Inr k, w2)"
    using sys_open_rd_found [OF a1(3) n1] assms(2) a1(1) by (simp add: w2_def)
  have a2: "fs w2 = fs w" "env w2 = env w" "faults w2 Open = []" "faults w2 Read = []"
    using a1 by (simp_all add: w2_def)
  have n2: "namei w2 False p = Inr k" using namei_same [OF a2(1,2)] assms(1) by simp
  have flag: "(case fst (sys_stat w2 p) of Inl e \<Rightarrow> False | Inr st \<Rightarrow> st_is_dir st) = False"
    using stat_not_dir [OF n2] a2(1) assms(2) by simp
  have final: "final_dest_path False p p = p"
    using namei_Inr_length [OF assms(1)] by (simp add: final_dest_path_def)
  have a3: "fs w3 = fs w" "env w3 = env w" "faults w3 Open = []" "faults w3 Read = []"
    "trace w3 = trace w2 @ [(CStat p, s2)]"
    using a2 by (simp_all add: w3_def s2_def sys_stat_faults)
  have n3: "namei w3 False p = Inr k" using namei_same [OF a3(1,2)] assms(1) by simp
  have o3: "sys_open_wr w3 p = (Inr k, w4)"
    using sys_open_wr_existing [OF a3(3) n3] assms(2) a3(1) by (simp add: w4_def)
  have a4: "fs w4 = (fs w)(k \<mapsto> File [] m)" "faults w4 Read = []"
    using a3 by (simp_all add: w4_def)
  have r4: "sys_read w4 k 0 = (Inr [], w5)"
    using sys_read_file [OF a4(2), of k "[]" m 0] a4(1) by (simp add: w5_def)
  have loop: "copy_loop w4 k 0 k 0 = Some (SUCCESS, w5)"
    using r4 by (simp add: copy_loop.simps [of w4 k 0 k 0])
  have a5: "fs w5 = (fs w)(k \<mapsto> File [] m)" using a4 by (simp add: w5_def)
  have a6: "fs w6 = (fs w)(k \<mapsto> File [] m)" using a5 by (simp add: w6_def)
  have t5: "trace w5 = trace w @ [(CStat p, s1), (COpenRd p, 0), (CStat p, s2),
                                  (COpenWr p, 0), (CRead k, 0)]"
    using a1(5) a3(5) by (simp add: w5_def w4_def w2_def)
  have run: "copy_file w p p
       = (case fst (sys_fstat w5 k) of
            Inl e \<Rightarrow> Some (SUCCESS, w6)
          | Inr b \<Rightarrow> Some (SUCCESS, snd (sys_fchmod w6 k (st_perm b))))"
    unfolding w6_def using o1 o3 flag final loop
    by (simp add: copy_file_def snd_get_file_size split_beta Let_def
                  w1_def [symmetric] w3_def [symmetric])
  show ?thesis
  proof (cases "fst (sys_fstat w5 k)")
    case (Inl e)
    have "trace w6 = trace w @ [(CStat p, s1), (COpenRd p, 0), (CStat p, s2),
                                  (COpenWr p, 0), (CRead k, 0)] @ [(CFstat k, -1)]"
      using t5 Inl by (simp add: w6_def)
    moreover have "\<forall>e\<in>set [(CFstat k, -1::int)]. fst e = CFstat k \<or> fst e = CFchmod k m"
      by simp
    ultimately show ?thesis using run Inl a6 by (simp only: sum.case) blast
  next
    case (Inr b)
    from sys_fstat_Inr [OF Inr] a5 have b: "st_perm b = m" by auto
    define w7 where "w7 = snd (sys_fchmod w6 k m)"
    have k6: "fs w6 k = Some (File [] m)" using a6 by simp
    have a7: "fs w7 = (fs w)(k \<mapsto> File [] m)"
      using sys_fchmod_file(1) [OF k6, of m] a6 by (auto simp: w7_def)
    have "trace w7 = trace w @ [(CStat p, s1), (COpenRd p, 0), (CStat p, s2),
                                  (COpenWr p, 0), (CRead k, 0)]
                       @ [(CFstat k, 0), (CFchmod k m, fst (sys_fchmod w6 k m))]"
      using t5 Inr by (simp add: w7_def w6_def)
    moreover have "\<forall>e\<in>set [(CFstat k, 0::int), (CFchmod k m, fst (sys_fchmod w6 k m))].
                     fst e = CFstat k \<or> fst e = CFchmod k m"
      by simp
    moreover have "copy_file w p p = Some (SUCCESS, w7)"
      using run Inr b by (simp add: w7_def)
    ultimately show ?thesis using a7 by blast
  qed
qed


theorem copy_file_onto_itself_witness:
  "namei demo False ''/a/f'' = Inr [''a'', ''f'']
   \<and> fs demo [''a'', ''f''] = Some (File [1, 2, 3] 384)
   \<and> faults demo Open = [] \<and> faults demo Read = []
   \<and> (\<exists>w' s1 s2 rest.
           copy_file demo ''/a/f'' ''/a/f'' = Some (SUCCESS, w')
         \<and> fs w' = (fs demo)([''a'', ''f''] \<mapsto> File [] 384)
         \<and> trace w' = trace demo @ [(CStat ''/a/f'', s1), (COpenRd ''/a/f'', 0),
                (CStat ''/a/f'', s2), (COpenWr ''/a/f'', 0), (CRead [''a'', ''f''], 0)] @ rest
         \<and> (\<forall>e\<in>set rest. fst e = CFstat [''a'', ''f''] \<or> fst e = CFchmod [''a'', ''f''] 384))"
proof -
  have n: "namei demo False ''/a/f'' = Inr [''a'', ''f'']"
    by (simp add: demo_defs sys_defs)
  have f: "fs demo [''a'', ''f''] = Some (File [1, 2, 3] 384)"
    by (simp add: demo_defs)
  have q: "faults demo Open = []" "faults demo Read = []"
    by (simp_all add: demo_def no_faults_def)
  from copy_file_onto_itself [OF n f q] n f q show ?thesis by (intro conjI)
qed

text \<open>
  The claim as stated, for every existing regular file, fails on a file that the caller
  cannot open for writing: the second \<open>open\<close> fails, \<open>copy_file\<close> returns
  \<open>ERROR_FILE_OPEN\<close>, nothing is read or written, and the file keeps its content.
\<close>

theorem copy_file_onto_itself_counterexample:
  "fs demo_write_denied [''a'', ''f''] = Some (File [1, 2, 3] 384)
   \<and> returned (copy_file demo_write_denied ''/a/f'' ''/a/f'') = Some ERROR_FILE_OPEN
   \<and> final_fs (copy_file demo_write_denied ''/a/f'' ''/a/f'') [''a'', ''f'']
       = Some (File [1, 2, 3] 384)
   \<and> final_trace (copy_file demo_write_denied ''/a/f'' ''/a/f'')
       = [(CStat ''/a/f'', 0), (COpenRd ''/a/f'', 0), (CStat ''/a/f'', 0),
          (COpenWr ''/a/f'', -1)]"
  by (simp add: demo_write_denied_def demo_defs sys_defs c_defs copy_loop.simps)

subsection \<open>Comparing and copying directories remove nothing\<close>

lemma steady_compare_loop: "steady w (snd (compare_loop w k1 o1 k2 o2))"
proof (induction w k1 o1 k2 o2 rule: compare_loop.induct)
  case (1 w fd1 off1 fd2 off2)
  obtain r1 w1 where r1: "sys_read w fd1 off1 = (r1, w1)" by (cases "sys_read w fd1 off1")
  obtain r2 w2 where r2: "sys_read w1 fd2 off2 = (r2, w2)" by (cases "sys_read w1 fd2 off2")
  have "steady w w1" using steady_read [of w fd1 off1] r1 by simp
  moreover have "steady w1 w2" using steady_read [of w1 fd2 off2] r2 by simp
  ultimately have w2: "steady w w2" by (rule steady_trans)
  show ?case
  proof (cases "\<not> isl r1 \<and> \<not> isl r2 \<and> length (projr r1) = length (projr r2)
                 \<and> projr r1 \<noteq> [] \<and> projr r1 = projr r2")
    case True
    then have "compare_loop w fd1 off1 fd2 off2
                 = compare_loop w2 fd1 (off1 + length (projr r1)) fd2 (off2 + length (projr r2))"
      using r1 r2 by (auto simp: compare_loop.simps [of w fd1 off1 fd2 off2])
    moreover have "steady w2 (snd (compare_loop w2 fd1 (off1 + length (projr r1)) fd2
                     (off2 + length (projr r2))))"
      using "1.IH" [OF r1 [symmetric] refl r2 [symmetric] refl] True by auto
    ultimately show ?thesis using steady_trans [OF w2] by simp
  next
    case False
    then have "snd (compare_loop w fd1 off1 fd2 off2) = w2"
      using r1 r2 by (auto simp: compare_loop.simps [of w fd1 off1 fd2 off2])
    then show ?thesis using w2 by simp
  qed
qed

lemma steady_compare_files: "steady w (snd (compare_files w file1 file2))"
proof -
  define wa where "wa = snd (path_exists w file1)"
  define wb where "wb = snd (path_exists wa file2)"
  define wc where "wc = snd (get_file_size wb file1)"
  define wd where "wd = snd (get_file_size wc file2)"
  define we where "we = snd (sys_open_rd wd file1)"
  define wf where "wf = snd (sys_open_rd we file2)"
  note ws = wa_def wb_def wc_def wd_def we_def wf_def
  have sa: "steady w wa" unfolding wa_def by (rule steady_path_exists)
  have sb: "steady w wb" unfolding wb_def by (rule steady_trans [OF sa steady_path_exists])
  have sc: "steady w wc" unfolding wc_def by (rule steady_trans [OF sb steady_get_file_size])
  have sd: "steady w wd" unfolding wd_def by (rule steady_trans [OF sc steady_get_file_size])
  have se: "steady w we" unfolding we_def by (rule steady_trans [OF sd steady_open_rd])
  have sf: "steady w wf" unfolding wf_def by (rule steady_trans [OF se steady_open_rd])
  have sl: "steady w (snd (compare_loop wf k1 0 k2 0))" for k1 k2
    by (rule steady_trans [OF sf steady_compare_loop])
  note defs = compare_files_def split_beta Let_def ws
  show ?thesis
  proof (cases "fst (path_exists w file1)")
    case False
    then have "snd (compare_files w file1 file2) = wa" by (simp add: defs)
    with sa show ?thesis by simp
  next
    case e1: True
    show ?thesis
    proof (cases "fst (path_exists wa file2)")
      case False
      with e1 have "snd (compare_files w file1 file2) = wb" by (simp add: defs)
      with sb show ?thesis by simp
    next
      case e2: True
      show ?thesis
      proof (cases "fst (get_file_size wb file1) = fst (get_file_size wc file2)")
        case False
        with e1 e2 have "snd (compare_files w file1 file2) = wd" by (simp add: defs)
        with sd show ?thesis by simp
      next
        case sz: True
        show ?thesis
        proof (cases "fst (sys_open_rd wd file1)")
          case (Inl e)
          with e1 e2 sz have "snd (compare_files w file1 file2) = we" by (simp add: defs)
          with se show ?thesis by simp
        next
          case o1: (Inr fd1)
          show ?thesis
          proof (cases "fst (sys_open_rd we file2)")
            case (Inl e)
            with e1 e2 sz o1 have "snd (compare_files w file1 file2) = wf"
              by (simp add: defs)
            with sf show ?thesis by simp
          next
            case (Inr fd2)
            with e1 e2 sz o1
            have "snd (compare_files w file1 file2) = snd (compare_loop wf fd1 0 fd2 0)"
              by (simp add: defs)
            with sl show ?thesis by simp
          qed
        qed
      qed
    qed
  qed
qed

lemma steady_create_prefixes: "steady w (snd (create_prefixes w tmp is))"
proof (induction "is" arbitrary: w)
  case Nil
  show ?case by simp
next
  case (Cons i "is")
  define w1 where "w1 = snd (path_exists w (take i tmp))"
  define w2 where "w2 = snd (sys_mkdir w1 (take i tmp))"
  have s1: "steady w w1" unfolding w1_def by (rule steady_path_exists)
  have s2: "steady w w2" unfolding w2_def by (rule steady_trans [OF s1 steady_mkdir])
  have "snd (create_prefixes w tmp (i # is)) \<in>
          {w2, snd (create_prefixes w tmp is), snd (create_prefixes w1 tmp is),
           snd (create_prefixes w2 tmp is)}"
    unfolding w1_def w2_def by (simp add: split_beta)
  with s1 s2 Cons.IH [of w] steady_trans [OF s1 Cons.IH [of w1]]
    steady_trans [OF s2 Cons.IH [of w2]]
  show ?case by auto
qed

lemma steady_create_directory:
  assumes "create_directory w path = Some y"
  shows "steady w (snd y)"
proof -
  define tmp0 where "tmp0 = take (MAX_PATH - 1) path"
  define tmp where "tmp = (if last tmp0 = CHR ''/'' then butlast tmp0 else tmp0)"
  define w1 where "w1 = snd (create_prefixes w tmp [1..<length tmp])"
  define w2 where "w2 = snd (path_exists w1 tmp)"
  define w3 where "w3 = snd (sys_mkdir w2 tmp)"
  have s1: "steady w w1" unfolding w1_def by (rule steady_create_prefixes)
  have s2: "steady w w2" unfolding w2_def by (rule steady_trans [OF s1 steady_path_exists])
  have s3: "steady w w3" unfolding w3_def by (rule steady_trans [OF s2 steady_mkdir])
  from assms have "snd y \<in> {w1, w2, w3}"
    unfolding w1_def w2_def w3_def tmp_def tmp0_def
    by (auto simp: create_directory_def split_beta Let_def split: if_splits)
  with s1 s2 s3 show ?thesis by auto
qed

lemma steady_copy_entries:
  assumes rec: "\<And>w s d y. rec w s d = Some y \<Longrightarrow> steady w (snd y)"
    and run: "copy_entries rec w src_path dest_path names = Some y"
  shows "steady w (snd y)"
  using run
proof (induction names arbitrary: w)
  case Nil
  then show ?case by auto
next
  case (Cons d_name rest)
  show ?case
  proof (cases "d_name = ''.'' \<or> d_name = ''..''")
    case True
    with Cons.prems have "copy_entries rec w src_path dest_path rest = Some y" by simp
    then show ?thesis by (rule Cons.IH)
  next
    case False
    define src_file where "src_file = join_path src_path d_name"
    define dest_file where "dest_file = join_path dest_path d_name"
    define w1 where "w1 = snd (is_directory w src_file)"
    define step where "step = (if fst (is_directory w src_file) then rec w1 src_file dest_file
                                else copy_file w1 src_file dest_file)"
    have s1: "steady w w1" unfolding w1_def by (rule steady_is_directory)
    from Cons.prems False have body:
      "(case step of None \<Rightarrow> None
        | Some (result, w) \<Rightarrow> if result \<noteq> SUCCESS then Some (result, w)
                               else copy_entries rec w src_path dest_path rest) = Some y"
      unfolding step_def w1_def src_file_def dest_file_def
      by (simp add: split_beta Let_def)
    then obtain res where st: "step = Some res" by (cases step) auto
    obtain result w2 where res: "res = (result, w2)" by (cases res)
    have "steady w1 w2"
      using st res rec [of w1 src_file dest_file res] steady_copy_file [of w1 src_file dest_file res]
      by (auto simp: step_def split: if_splits)
    with s1 have s2: "steady w w2" by (rule steady_trans)
    show ?thesis
    proof (cases "result = SUCCESS")
      case True
      with body st res have "copy_entries rec w2 src_path dest_path rest = Some y" by simp
      from Cons.IH [OF this] s2 show ?thesis by (rule steady_trans [rotated])
    next
      case False
      with body st res have "y = (result, w2)" by simp
      with s2 show ?thesis by simp
    qed
  qed
qed

lemma steady_copy_directory:
  "copy_directory depth w src_path dest_path = Some y \<Longrightarrow> steady w (snd y)"
proof (induction depth arbitrary: w src_path dest_path y)
  case 0
  then show ?case by simp
next
  case (Suc depth)
  from Suc.prems obtain res where cd: "create_directory w dest_path = Some res"
    by (cases "create_directory w dest_path") auto
  obtain result w1 where res: "res = (result, w1)" by (cases res)
  have s1: "steady w w1" using steady_create_directory [OF cd] res by simp
  show ?case
  proof (cases "result = SUCCESS")
    case False
    with Suc.prems cd res have "y = (result, w1)" by simp
    with s1 show ?thesis by simp
  next
    case True
    define w2 where "w2 = snd (sys_opendir w1 src_path)"
    have s2: "steady w w2" unfolding w2_def by (rule steady_trans [OF s1 steady_opendir])
    show ?thesis
    proof (cases "fst (sys_opendir w1 src_path)")
      case (Inl e)
      with Suc.prems cd res True have "y = (ERROR_DIR_OPEN, w2)"
        by (simp add: split_beta w2_def)
      with s2 show ?thesis by simp
    next
      case (Inr names)
      with Suc.prems cd res True
      have "copy_entries (copy_directory depth) w2 src_path dest_path names = Some y"
        by (simp add: split_beta w2_def)
      from steady_copy_entries [OF _ this] Suc.IH have "steady w2 (snd y)" by blast
      with s2 show ?thesis by (rule steady_trans)
    qed
  qed
qed


subsection \<open>Paths, a rename across devices, and \<open>unlink\<close>\<close>

lemma walk_append:
  "walk f k (xs @ ys) = (case walk f k xs of Inl e \<Rightarrow> Inl e | Inr k1 \<Rightarrow> walk f k1 ys)"
  by (induction xs arbitrary: k) (auto split: option.splits node.splits if_splits)

lemma walk_empties:
  "\<forall>z\<in>set zs. z = [] \<Longrightarrow> walk f k zs = Inr k' \<Longrightarrow> k' = k"
  by (induction zs arbitrary: k)
     (auto simp: step_def split: option.splits node.splits if_splits)

lemma strip_slashes_split:
  "\<exists>zs. cs = strip_slashes cs @ zs \<and> (\<forall>z\<in>set zs. z = [])"
proof -
  have "rev (dropWhile (\<lambda>c. c = []) (rev cs)) @ rev (takeWhile (\<lambda>c. c = []) (rev cs)) = cs"
    by (metis rev_append rev_rev_ident takeWhile_dropWhile_id)
  moreover have "\<forall>z\<in>set (rev (takeWhile (\<lambda>c. c = []) (rev cs))). z = []"
    by (auto dest: set_takeWhileD)
  ultimately show ?thesis unfolding strip_slashes_def by metis
qed

lemma walk_strip:
  assumes "walk f k cs = Inr k'"
  shows "walk f k (strip_slashes cs) = Inr k'"
proof -
  from strip_slashes_split obtain zs where
    zs: "cs = strip_slashes cs @ zs" "\<forall>z\<in>set zs. z = []" by blast
  from assms zs(1) have "walk f k (strip_slashes cs @ zs) = Inr k'" by simp
  then obtain k1 where k1: "walk f k (strip_slashes cs) = Inr k1" "walk f k1 zs = Inr k'"
    by (auto simp: walk_append split: sum.splits)
  from walk_empties [OF zs(2) k1(2)] k1(1) show ?thesis by simp
qed

lemma namei_strip: "namei w False p = Inr k \<Longrightarrow> namei w True p = Inr k"
  by (auto simp: namei_def walk_strip split: if_splits)

lemma walk_errors:
  "walk f k cs = Inl e \<Longrightarrow> e = ENOENT \<or> e = ENOTDIR \<or> e = ENAMETOOLONG"
  by (induction cs arbitrary: k) (auto split: option.splits node.splits if_splits)

lemma namei_errors: "namei w b p = Inl e \<Longrightarrow> e \<noteq> EXDEV"
  by (auto simp: namei_def split: if_splits dest: walk_errors)

lemma sys_rename_env: "env (snd (sys_rename w old new)) = env w"
  by (auto simp: sys_rename_def split_beta split: sum.splits option.splits)

lemma sys_rename_EXDEV:
  assumes "sys_rename w old new = (Some EXDEV, w1)"
  shows "\<exists>ko kn. namei w False old = Inr ko \<and> namei w True new = Inr kn \<and> ko \<noteq> kn"
proof -
  from assms have nf: "\<not> fst (fault w Rename)"
    by (cases "fst (fault w Rename)") (auto simp: sys_rename_def split_beta)
  from assms nf obtain ko where ko: "namei w False old = Inr ko"
    by (cases "namei w False old") (auto simp: sys_rename_def split_beta dest: namei_errors)
  from assms nf ko obtain kn where kn: "namei w True new = Inr kn"
    by (cases "namei w True new") (auto simp: sys_rename_def split_beta dest: namei_errors)
  from assms nf ko kn have rc: "rename_check (snd (fault w Rename)) new ko kn = Some EXDEV"
    by (cases "rename_check (snd (fault w Rename)) new ko kn")
       (auto simp: sys_rename_def split_beta)
  have "ko \<noteq> kn"
  proof
    assume "ko = kn"
    with rc show False
      by (auto simp: rename_check_def is_dir_node_def
               split: if_splits option.splits node.splits)
  qed
  with ko kn show ?thesis by blast
qed

lemma del_entry_present: "f j \<noteq> None \<Longrightarrow> del_entry f k j \<noteq> None"
  by (cases "f (butlast k)") (auto simp: del_entry_def split: node.splits)

lemma sys_unlink_removes:
  assumes "fs w k \<noteq> None" "fs (snd (sys_unlink w p)) k = None"
  shows "namei w False p = Inr k"
proof -
  from assms have nf: "\<not> fst (fault w Unlink)"
    by (cases "fst (fault w Unlink)") (auto simp: sys_unlink_def split_beta)
  from assms nf obtain kd where kd: "namei w False p = Inr kd"
    by (cases "namei w False p") (auto simp: sys_unlink_def split_beta)
  have "k = kd"
  proof (rule ccontr)
    assume ne: "k \<noteq> kd"
    then have "((fs w)(kd := None)) k \<noteq> None" using assms(1) by simp
    from del_entry_present [of "(fs w)(kd := None)" k kd] this assms(2) nf kd assms(1)
    show False
      by (cases "fs w kd") (auto simp: sys_unlink_def split_beta split: node.splits)
  qed
  with kd show ?thesis by simp
qed

lemma sys_unlink_failed:
  "fst (sys_unlink w p) \<noteq> None \<Longrightarrow> fs (snd (sys_unlink w p)) = fs w"
  by (auto simp: sys_unlink_def split_beta split: sum.splits option.splits node.splits)


lemma sys_rename_failed_env:
  assumes "sys_rename w old new = (Some e, w1)"
  shows "env w1 = env w"
  using sys_rename_env [of w old new] assms by simp

subsection \<open>When a move removes its source\<close>

text \<open>
  Claim C2, as amended. A file move removes its source only after the rename
  succeeded, or after the copy returned \<open>SUCCESS\<close> and \<open>compare_files\<close> on the
  source and the destination path returned \<open>SUCCESS\<close> (both are then regular files
  with equal content); until that point nothing at all was removed, and the removal is
  the final \<open>unlink\<close> of the source. A directory move removes a node only after the
  rename succeeded, or after \<open>copy_directory\<close> returned \<open>SUCCESS\<close>, with nothing
  removed before \<open>remove_directory\<close> starts; there is no verification of content in
  the directory case.
\<close>

theorem move_removes_source_only_after_check:
  "(move_file w src_path dest_path = Some (r, w') \<and> namei w False src_path = Inr ko
      \<and> fs w ko \<noteq> None \<and> fs w' ko = None
      \<longrightarrow> sys_rename w src_path dest_path = (None, w')
         \<or> (\<exists>w1 w2 w3 c m1 m2 kd.
               sys_rename w src_path dest_path = (Some EXDEV, w1)
             \<and> copy_file w1 src_path dest_path = Some (SUCCESS, w2)
             \<and> compare_files w2 src_path dest_path = (SUCCESS, w3)
             \<and> steady w1 w3
             \<and> fs w3 ko = Some (File c m1)
             \<and> namei w3 False dest_path = Inr kd \<and> fs w3 kd = Some (File c m2)
             \<and> sys_unlink w3 src_path = (None, w')))
   \<and> (move_directory depth w src_path dest_path = Some (rd, wd) \<and> fs w k \<noteq> None
      \<and> fs wd k = None
      \<longrightarrow> sys_rename w src_path dest_path = (None, wd)
         \<or> (\<exists>w1 w2 r2.
               sys_rename w src_path dest_path = (Some EXDEV, w1)
             \<and> copy_directory depth w1 src_path dest_path = Some (SUCCESS, w2)
             \<and> steady w1 w2 \<and> fs w2 k \<noteq> None
             \<and> remove_directory depth w2 src_path = Some (r2, wd)))"
proof (intro conjI impI; elim conjE)
  assume run: "move_file w src_path dest_path = Some (r, w')"
    and ko: "namei w False src_path = Inr ko" and pre: "fs w ko \<noteq> None"
    and post: "fs w' ko = None"
  obtain err w1 where rn: "sys_rename w src_path dest_path = (err, w1)"
    by (cases "sys_rename w src_path dest_path")
  show "sys_rename w src_path dest_path = (None, w')
         \<or> (\<exists>w1 w2 w3 c m1 m2 kd.
               sys_rename w src_path dest_path = (Some EXDEV, w1)
             \<and> copy_file w1 src_path dest_path = Some (SUCCESS, w2)
             \<and> compare_files w2 src_path dest_path = (SUCCESS, w3)
             \<and> steady w1 w3
             \<and> fs w3 ko = Some (File c m1)
             \<and> namei w3 False dest_path = Inr kd \<and> fs w3 kd = Some (File c m2)
             \<and> sys_unlink w3 src_path = (None, w'))"
  proof (cases err)
    case None
    with run rn show ?thesis by (simp add: move_file_def)
  next
    case (Some e)
    have f1: "fs w1 = fs w" "env w1 = env w"
      using sys_rename_failed [of w src_path dest_path e w1]
        sys_rename_failed_env [of w src_path dest_path e w1] rn Some by simp_all
    show ?thesis
    proof (cases "e = EXDEV")
      case False
      with run rn Some have "w' = w1" by (simp add: move_file_def)
      with f1 pre post show ?thesis by simp
    next
      case True
      from sys_rename_EXDEV [of w src_path dest_path w1] rn Some True obtain ko' kn where
        kk: "namei w False src_path = Inr ko'" "namei w True dest_path = Inr kn" "ko' \<noteq> kn"
        by auto
      with ko have ne: "ko \<noteq> kn" by simp
      from run rn Some True obtain res where cf: "copy_file w1 src_path dest_path = Some res"
        by (cases "copy_file w1 src_path dest_path") (auto simp: move_file_def)
      obtain rc w2 where res: "res = (rc, w2)" by (cases res)
      have s2: "steady w1 w2" using steady_copy_file [OF cf] res by simp
      have p1: "fs w1 ko \<noteq> None" using f1 pre by simp
      have p2: "fs w2 ko \<noteq> None" using s2 p1 by (simp add: steady_def)
      show ?thesis
      proof (cases "rc = SUCCESS")
        case False
        with run rn Some True cf res have "w' = w2" by (simp add: move_file_def)
        with p2 post show ?thesis by simp
      next
        case ok: True
        obtain rv w3 where cmp: "compare_files w2 src_path dest_path = (rv, w3)"
          by (cases "compare_files w2 src_path dest_path")
        have s3: "steady w1 w3"
          using steady_trans [OF s2 steady_compare_files [of w2 src_path dest_path]] cmp
          by simp
        have p3: "fs w3 ko \<noteq> None" using s3 p1 by (simp add: steady_def)
        have n1: "namei w1 b p = namei w b p" for b p using namei_same [OF f1] by simp
        show ?thesis
        proof (cases "rv = SUCCESS")
          case False
          with run rn Some True cf res ok cmp
          have w': "w' = snd (sys_unlink w3 dest_path)" by (simp add: move_file_def)
          from sys_unlink_removes [OF p3] post w'
          have "namei w3 False dest_path = Inr ko" by simp
          then have "namei w3 True dest_path = Inr ko" by (rule namei_strip)
          moreover have "namei w3 True dest_path = Inr kn"
            using namei_steady [OF s3] kk(2) n1 by simp
          ultimately show ?thesis using ne by simp
        next
          case vok: True
          obtain e3 w4 where ul: "sys_unlink w3 src_path = (e3, w4)"
            by (cases "sys_unlink w3 src_path")
          from run rn Some True cf res ok cmp vok ul have w': "w' = w4"
            by (cases e3) (simp_all add: move_file_def)
          have e3: "e3 = None"
          proof (rule ccontr)
            assume "e3 \<noteq> None"
            with sys_unlink_failed [of w3 src_path] ul have "fs w4 = fs w3" by simp
            with w' p3 post show False by simp
          qed
          from compare_files_sound [of w2 src_path dest_path w3] cmp vok
          obtain k1 k2 c m1 m2 where
            v: "namei w2 False src_path = Inr k1" "namei w2 False dest_path = Inr k2"
               "fs w2 k1 = Some (File c m1)" "fs w2 k2 = Some (File c m2)"
            by auto
          have "namei w2 False src_path = Inr ko"
            using namei_steady [OF s2] ko n1 by simp
          with v have k1: "k1 = ko" by simp
          have f3: "fs w3 = fs w2" using compare_files_fs [of w2 src_path dest_path] cmp by simp
          have e23: "env w3 = env w2"
            using steady_compare_files [of w2 src_path dest_path] cmp by (simp add: steady_def)
          have "namei w3 False dest_path = Inr k2"
            using namei_same [OF f3 e23] v(2) by simp
          with rn Some True cf res ok cmp vok s3 v k1 f3 ul e3 w'
          show ?thesis by auto
        qed
      qed
    qed
  qed
next
  assume run: "move_directory depth w src_path dest_path = Some (rd, wd)"
    and pre: "fs w k \<noteq> None" and post: "fs wd k = None"
  obtain err w1 where rn: "sys_rename w src_path dest_path = (err, w1)"
    by (cases "sys_rename w src_path dest_path")
  show "sys_rename w src_path dest_path = (None, wd)
         \<or> (\<exists>w1 w2 r2.
               sys_rename w src_path dest_path = (Some EXDEV, w1)
             \<and> copy_directory depth w1 src_path dest_path = Some (SUCCESS, w2)
             \<and> steady w1 w2 \<and> fs w2 k \<noteq> None
             \<and> remove_directory depth w2 src_path = Some (r2, wd))"
  proof (cases err)
    case None
    with run rn show ?thesis by (simp add: move_directory_def)
  next
    case (Some e)
    have f1: "fs w1 = fs w"
      using sys_rename_failed [of w src_path dest_path e w1] rn Some by simp
    show ?thesis
    proof (cases "e = EXDEV")
      case False
      with run rn Some have "wd = w1" by (simp add: move_directory_def)
      with f1 pre post show ?thesis by simp
    next
      case True
      from run rn Some True obtain res where
        cd: "copy_directory depth w1 src_path dest_path = Some res"
        by (cases "copy_directory depth w1 src_path dest_path")
           (auto simp: move_directory_def)
      obtain rc w2 where res: "res = (rc, w2)" by (cases res)
      have s2: "steady w1 w2" using steady_copy_directory [OF cd] res by simp
      have p2: "fs w2 k \<noteq> None" using s2 f1 pre by (simp add: steady_def)
      show ?thesis
      proof (cases "rc = SUCCESS")
        case False
        with run rn Some True cd res have "wd = w2" by (simp add: move_directory_def)
        with p2 post show ?thesis by simp
      next
        case ok: True
        from run rn Some True cd res ok obtain res2 where
          rd: "remove_directory depth w2 src_path = Some res2"
          by (cases "remove_directory depth w2 src_path") (auto simp: move_directory_def)
        obtain r2 w3 where res2: "res2 = (r2, w3)" by (cases res2)
        from run rn Some True cd res ok rd res2 have "wd = w3"
          by (cases "r2 = SUCCESS") (simp_all add: move_directory_def)
        with rn Some True cd res ok rd res2 s2 p2 show ?thesis by auto
      qed
    qed
  qed
qed

text \<open>
  The theorem at work on the example file system: the file \<open>/a/f\<close> and the directory
  \<open>/s\<close> are moved to the other device.
\<close>

theorem move_removes_source_only_after_check_witness:
  "move_file demo ''/a/f'' ''/mnt/f'' = Some (SUCCESS, after_file_move)
   \<and> namei demo False ''/a/f'' = Inr [''a'', ''f'']
   \<and> fs demo [''a'', ''f''] \<noteq> None \<and> fs after_file_move [''a'', ''f''] = None
   \<and> (sys_rename demo ''/a/f'' ''/mnt/f'' = (None, after_file_move)
       \<or> (\<exists>w1 w2 w3 c m1 m2 kd.
               sys_rename demo ''/a/f'' ''/mnt/f'' = (Some EXDEV, w1)
             \<and> copy_file w1 ''/a/f'' ''/mnt/f'' = Some (SUCCESS, w2)
             \<and> compare_files w2 ''/a/f'' ''/mnt/f'' = (SUCCESS, w3)
             \<and> steady w1 w3
             \<and> fs w3 [''a'', ''f''] = Some (File c m1)
             \<and> namei w3 False ''/mnt/f'' = Inr kd \<and> fs w3 kd = Some (File c m2)
             \<and> sys_unlink w3 ''/a/f'' = (None, after_file_move)))
   \<and> move_directory (Suc 0) demo ''/s'' ''/mnt/t'' = Some (SUCCESS, after_directory_move)
   \<and> fs demo [''s'', ''n''] \<noteq> None \<and> fs after_directory_move [''s'', ''n''] = None
   \<and> (sys_rename demo ''/s'' ''/mnt/t'' = (None, after_directory_move)
       \<or> (\<exists>w1 w2 r2.
               sys_rename demo ''/s'' ''/mnt/t'' = (Some EXDEV, w1)
             \<and> copy_directory (Suc 0) w1 ''/s'' ''/mnt/t'' = Some (SUCCESS, w2)
             \<and> steady w1 w2 \<and> fs w2 [''s'', ''n''] \<noteq> None
             \<and> remove_directory (Suc 0) w2 ''/s'' = Some (r2, after_directory_move)))"
proof -
  have f1: "move_file demo ''/a/f'' ''/mnt/f'' = Some (SUCCESS, after_file_move)"
    unfolding after_file_move_def by (simp add: run_defs compare_loop.simps)
  have f2: "namei demo False ''/a/f'' = Inr [''a'', ''f'']"
    by (simp add: demo_defs sys_defs)
  have f3: "fs demo [''a'', ''f''] \<noteq> None" by (simp add: demo_defs)
  have f4: "fs after_file_move [''a'', ''f''] = None"
    unfolding after_file_move_def by (simp add: run_defs compare_loop.simps)
  have d1: "move_directory (Suc 0) demo ''/s'' ''/mnt/t'' = Some (SUCCESS, after_directory_move)"
    unfolding after_directory_move_def by (simp add: run_defs)
  have d2: "fs demo [''s'', ''n''] \<noteq> None" by (simp add: demo_defs)
  have d3: "fs after_directory_move [''s'', ''n''] = None"
    unfolding after_directory_move_def by (simp add: run_defs)
  note T = move_removes_source_only_after_check
    [where w = demo and src_path = "''/a/f''" and dest_path = "''/mnt/f''" and r = SUCCESS
       and w' = after_file_move and ko = "[''a'', ''f'']"]
  note D = move_removes_source_only_after_check
    [where w = demo and src_path = "''/s''" and dest_path = "''/mnt/t''" and rd = SUCCESS
       and wd = after_directory_move and k = "[''s'', ''n'']" and depth = "Suc 0"]
  from T f1 f2 f3 f4 have c1:
    "sys_rename demo ''/a/f'' ''/mnt/f'' = (None, after_file_move)
       \<or> (\<exists>w1 w2 w3 c m1 m2 kd.
               sys_rename demo ''/a/f'' ''/mnt/f'' = (Some EXDEV, w1)
             \<and> copy_file w1 ''/a/f'' ''/mnt/f'' = Some (SUCCESS, w2)
             \<and> compare_files w2 ''/a/f'' ''/mnt/f'' = (SUCCESS, w3)
             \<and> steady w1 w3
             \<and> fs w3 [''a'', ''f''] = Some (File c m1)
             \<and> namei w3 False ''/mnt/f'' = Inr kd \<and> fs w3 kd = Some (File c m2)
             \<and> sys_unlink w3 ''/a/f'' = (None, after_file_move))"
    by blast
  from D d1 d2 d3 have c2:
    "sys_rename demo ''/s'' ''/mnt/t'' = (None, after_directory_move)
       \<or> (\<exists>w1 w2 r2.
               sys_rename demo ''/s'' ''/mnt/t'' = (Some EXDEV, w1)
             \<and> copy_directory (Suc 0) w1 ''/s'' ''/mnt/t'' = Some (SUCCESS, w2)
             \<and> steady w1 w2 \<and> fs w2 [''s'', ''n''] \<noteq> None
             \<and> remove_directory (Suc 0) w2 ''/s'' = Some (r2, after_directory_move))"
    by blast
  from f1 f2 f3 f4 c1 d1 d2 d3 c2 show ?thesis by (intro conjI)
qed

text \<open>
  Claim C2 as stated asks for a content verification before any part of the source is
  removed, for directory moves too. \<open>move_directory\<close> has none: the directory \<open>/s\<close>
  is moved to the other device, the call returns \<open>SUCCESS\<close>, the source file
  \<open>/s/n\<close> and the directory are gone, and in the whole trace the copied file
  \<open>/mnt/t/n\<close> is never opened for reading, read or compared: after the copy come only
  the calls of \<open>remove_directory\<close>.
\<close>

theorem move_directory_unverified_counterexample:
  "returned (move_directory (Suc 0) demo ''/s'' ''/mnt/t'') = Some SUCCESS
   \<and> fs demo [''s'', ''n''] = Some (File [5, 6] 420)
   \<and> final_fs (move_directory (Suc 0) demo ''/s'' ''/mnt/t'') [''s'', ''n''] = None
   \<and> final_fs (move_directory (Suc 0) demo ''/s'' ''/mnt/t'') [''s''] = None
   \<and> final_trace (move_directory (Suc 0) demo ''/s'' ''/mnt/t'')
       = [(CRename ''/s'' ''/mnt/t'', -1),
          (CStat ''/mnt'', 0), (CStat ''/mnt/t'', -1), (CMkdir ''/mnt/t'', 0),
          (COpendir ''/s'', 0), (CStat ''/s/n'', 0),
          (CStat ''/s/n'', 0), (COpenRd ''/s/n'', 0), (CStat ''/mnt/t/n'', -1),
          (COpenWr ''/mnt/t/n'', 0), (CRead [''s'', ''n''], 2),
          (CWrite [''mnt'', ''t'', ''n''] 2, 2), (CRead [''s'', ''n''], 0),
          (CFstat [''s'', ''n''], 0), (CFchmod [''mnt'', ''t'', ''n''] 420, 0),
          (COpendir ''/s'', 0), (CStat ''/s/n'', 0), (CUnlink ''/s/n'', 0),
          (CRmdir ''/s'', 0)]"
  by (simp add: run_defs)


subsection \<open>Prefixes of a path that resolves\<close>

text \<open>
  When a path resolves, the text before any of its slashes (but the first character)
  resolves to an existing directory.
\<close>

lemma split_path_nonempty [simp]: "split_path p \<noteq> []"
  by (induction p) (auto split: list.splits)

lemma split_path_slash:
  "split_path (a @ CHR ''/'' # b) = split_path a @ split_path b"
  by (induction a) (auto split: list.splits)

lemma walk_Inr_dir:
  "walk f k cs = Inr k' \<Longrightarrow> cs \<noteq> [] \<Longrightarrow> \<exists>m d es. f k = Some (Dir m d es)"
  by (cases cs) (auto split: option.splits node.splits if_splits)

lemma namei_prefix:
  assumes r: "namei w False p = Inr k" and i: "0 < i" "i < length p" and s: "p ! i = CHR ''/''"
  shows "\<exists>k1 m d es. namei w False (take i p) = Inr k1 \<and> fs w k1 = Some (Dir m d es)"
proof -
  have p: "p = take i p @ CHR ''/'' # drop (Suc i) p"
    using i s id_take_nth_drop [of i p] by simp
  have sp: "split_path p = split_path (take i p) @ split_path (drop (Suc i) p)"
    using split_path_slash [of "take i p" "drop (Suc i) p"] p by simp
  have ne: "take i p \<noteq> []" using i by auto
  have hd: "hd (take i p) = hd p" using i by (cases p) (auto simp: take_Suc_conv_app_nth hd_conv_nth)
  have len: "length p < MAX_PATH" using r by (rule namei_Inr_length)
  define k0 where "k0 = (if hd p = CHR ''/'' then [] else cwd w)"
  have w: "walk (fs w) k0 (split_path p) = Inr k"
    using r len by (auto simp: namei_def k0_def split: if_splits)
  then obtain k1 where k1: "walk (fs w) k0 (split_path (take i p)) = Inr k1"
    and rest: "walk (fs w) k1 (split_path (drop (Suc i) p)) = Inr k"
    unfolding sp walk_append by (auto split: sum.splits)
  from walk_Inr_dir [OF rest] obtain m d es where "fs w k1 = Some (Dir m d es)" by auto
  moreover have "namei w False (take i p) = Inr k1"
    using k1 ne hd len i by (simp add: namei_def k0_def)
  ultimately show ?thesis by blast
qed

subsection \<open>A file move whose verification fails\<close>

lemma final_dest_not_dir:
  assumes f: "namei w False final = Inr kf"
    and fin: "final = final_dest_path False src_path dest_path
              \<or> final = final_dest_path True src_path dest_path"
    and d: "namei w False dest_path = Inr kd" and nd: "\<not> is_dir_node (fs w kd)"
  shows "final = dest_path"
proof -
  have len: "length dest_path < MAX_PATH" using d by (rule namei_Inr_length)
  have ne: "dest_path \<noteq> []" using d by (auto simp: namei_def)
  have same: "final_dest_path False src_path dest_path = dest_path"
    using len by (simp add: final_dest_path_def)
  show ?thesis
  proof (cases "final = final_dest_path False src_path dest_path")
    case True
    with same show ?thesis by simp
  next
    case False
    with fin have j: "final = take (MAX_PATH - 1) (dest_path @ ''/'' @ basename src_path)"
      by (simp add: final_dest_path_def join_path_def)
    show ?thesis
    proof (cases "length dest_path < MAX_PATH - 1")
      case False
      with len have "length dest_path = MAX_PATH - 1" by simp
      with j show ?thesis by simp
    next
      case True
      define i where "i = length dest_path"
      have i: "0 < i" "i < length final" "final ! i = CHR ''/''" "take i final = dest_path"
        using True ne j by (simp_all add: i_def nth_append)
      from namei_prefix [OF f i(1,2,3)] i(4) d
      obtain m dv es where "fs w kd = Some (Dir m dv es)" by auto
      with nd show ?thesis by (simp add: is_dir_node_def)
    qed
  qed
qed

lemma sys_unlink_done:
  assumes "sys_unlink w p = (None, w')"
  shows "\<exists>k c m. namei w False p = Inr k \<and> fs w k = Some (File c m) \<and> fs w' k = None
           \<and> (\<forall>k' c' m'. k' \<noteq> k \<and> fs w k' = Some (File c' m') \<longrightarrow> fs w' k' = fs w k')"
  using assms
  by (auto simp: sys_unlink_def split_beta Let_def log_def del_entry_def
           split: if_splits sum.splits option.splits node.splits)

text \<open>
  When the destination path names no directory, the file written is the destination
  path itself. If the verification then fails and the \<open>unlink\<close> of the destination
  succeeds, the move returns \<open>ERROR_MOVE_FAILED\<close>, the source is the file it was,
  and nothing is left at the destination.
\<close>

lemma move_file_failed_verification:
  assumes rn: "sys_rename w src_path dest_path = (Some EXDEV, w1)"
    and cf: "copy_file w1 src_path dest_path = Some (SUCCESS, w2)"
    and cmp: "compare_files w2 src_path dest_path = (r, w3)" "r \<noteq> SUCCESS"
    and d: "namei w False dest_path = Inr kd" "\<not> is_dir_node (fs w kd)"
    and ul: "sys_unlink w3 dest_path = (None, w4)"
  shows "\<exists>ks c m. move_file w src_path dest_path = Some (ERROR_MOVE_FAILED, w4)
           \<and> namei w False src_path = Inr ks \<and> fs w ks = Some (File c m)
           \<and> fs w4 ks = Some (File c m) \<and> fs w4 kd = None"
proof -
  have mv: "move_file w src_path dest_path = Some (ERROR_MOVE_FAILED, w4)"
    using rn cf cmp ul by (simp add: move_file_def)
  have f1: "fs w1 = fs w" using sys_rename_failed [OF rn] by simp
  have e1: "env w1 = env w" using sys_rename_failed_env [OF rn] .
  from sys_rename_EXDEV [OF rn] obtain ks kn where
    ks: "namei w False src_path = Inr ks" and kn: "namei w True dest_path = Inr kn"
    and ne: "ks \<noteq> kn" by blast
  from namei_strip [OF d(1)] kn have "kn = kd" by simp
  with ne have ne: "ks \<noteq> kd" by simp
  have n1: "namei w1 b p = namei w b p" for b p using namei_same [OF f1 e1] .
  from copy_file_result [OF cf] obtain final ks' kf c ms md where
    fin: "final = final_dest_path False src_path dest_path
            \<or> final = final_dest_path True src_path dest_path"
    and r: "namei w1 False src_path = Inr ks'" "namei w1 False final = Inr kf"
      "fs w2 ks' = Some (File c ms)" "fs w2 kf = Some (File c md)"
      "ks' \<noteq> kf \<longrightarrow> fs w1 ks' = Some (File c ms)"
    by blast
  have "ks' = ks" using r(1) ks n1 by simp
  have "final = dest_path"
    using final_dest_not_dir [OF r(2) fin] d n1 f1 by simp
  with r(2) d(1) n1 have "kf = kd" by simp
  have src1: "fs w ks = Some (File c ms)" using r(5) \<open>ks' = ks\<close> \<open>kf = kd\<close> ne f1 by simp
  have src2: "fs w2 ks = Some (File c ms)" using r(3) \<open>ks' = ks\<close> by simp
  have f3: "fs w3 = fs w2" using compare_files_fs [of w2 src_path dest_path] cmp(1) by simp
  have s2: "steady w1 w2" using steady_copy_file [OF cf] by simp
  have s3: "steady w2 w3" using steady_compare_files [of w2 src_path dest_path] cmp(1) by simp
  have n3: "namei w3 False dest_path = Inr kd"
    using namei_steady [OF steady_trans [OF s2 s3]] d(1) n1 by simp
  from sys_unlink_done [OF ul] n3 obtain c' m' where
    u: "fs w3 kd = Some (File c' m')" "fs w4 kd = None"
      "\<forall>k' c' m'. k' \<noteq> kd \<and> fs w3 k' = Some (File c' m') \<longrightarrow> fs w4 k' = fs w3 k'"
    by auto
  have "fs w4 ks = Some (File c ms)" using u(3) ne src2 f3 by simp
  with mv ks src1 u(2) show ?thesis by blast
qed

text \<open>
  Such a run: the read of the source fails during the comparison.
\<close>

lemma move_file_failed_verification_example:
  "returned (move_file demo_read_fails ''/a/f'' ''/mnt/f'') = Some ERROR_MOVE_FAILED
   \<and> final_fs (move_file demo_read_fails ''/a/f'' ''/mnt/f'') [''a'', ''f'']
       = Some (File [1, 2, 3] 384)
   \<and> final_fs (move_file demo_read_fails ''/a/f'' ''/mnt/f'') [''mnt'', ''f''] = None
   \<and> final_fs (move_file demo_read_fails ''/a/f'' ''/mnt/f'') [''mnt'']
       = Some (Dir 493 2 [''d'', ''m''])
   \<and> drop 14 (final_trace (move_file demo_read_fails ''/a/f'' ''/mnt/f''))
       = [(COpenRd ''/a/f'', 0), (COpenRd ''/mnt/f'', 0), (CRead [''a'', ''f''], -1),
          (CRead [''mnt'', ''f''], 3), (CUnlink ''/mnt/f'', 0)]"
  by (simp add: run_defs demo_read_fails_def compare_loop.simps)

text \<open>
  When the destination path of a move to another device is an existing directory,
  \<open>copy_file\<close> writes to the source's name inside it, while \<open>move_file\<close> compares and
  then unlinks the path it was given. Moving \<open>/mnt/m\<close> to its own directory \<open>/mnt\<close>,
  a mount point, makes the copy open the source itself for writing: the source is
  truncated, and the move fails.
\<close>

lemma move_file_into_own_directory_truncates:
  "returned (move_file demo ''/mnt/m'' ''/mnt'') = Some ERROR_MOVE_FAILED
   \<and> fs demo [''mnt'', ''m''] = Some (File [7, 8] 420)
   \<and> final_fs (move_file demo ''/mnt/m'' ''/mnt'') [''mnt'', ''m''] = Some (File [] 420)"
  by (simp add: run_defs)

text \<open>
  Claim C3 does not hold for the code. The file \<open>/a/f\<close> is moved to the directory
  \<open>/mnt/d\<close> on the other device. The copy writes \<open>/mnt/d/f\<close>, the comparison of
  \<open>/a/f\<close> with the directory \<open>/mnt/d\<close> fails, \<open>unlink\<close> of \<open>/mnt/d\<close> fails
  and its result is ignored: the move returns \<open>ERROR_MOVE_FAILED\<close>, the source is
  unchanged, but the newly written file \<open>/mnt/d/f\<close> is still there.
\<close>

theorem move_file_into_directory_leaves_copy:
  "returned (move_file demo ''/a/f'' ''/mnt/d'') = Some ERROR_MOVE_FAILED
   \<and> fs demo [''mnt'', ''d'', ''f''] = None
   \<and> final_fs (move_file demo ''/a/f'' ''/mnt/d'') [''mnt'', ''d'', ''f'']
       = Some (File [1, 2, 3] 384)
   \<and> final_fs (move_file demo ''/a/f'' ''/mnt/d'') [''a'', ''f'']
       = Some (File [1, 2, 3] 384)
   \<and> last (final_trace (move_file demo ''/a/f'' ''/mnt/d'')) = (CUnlink ''/mnt/d'', -1)"
  by (simp add: run_defs)


subsection \<open>A directory move whose source cannot be deleted\<close>

text \<open>
  A file move reports the failed \<open>unlink\<close> of its source. A directory move does
  not: \<open>remove_directory\<close> returns \<open>SUCCESS\<close> whenever it could open the directory,
  so after a successful copy \<open>move_directory\<close> returns \<open>SUCCESS\<close> whatever became
  of the deletions.
\<close>

lemma remove_directory_result:
  assumes "remove_directory depth w path = Some (r, w')"
  shows "r = SUCCESS \<or> (r = ERROR_DIR_OPEN \<and> isl (fst (sys_opendir w path)))"
  using assms
  by (cases depth) (auto simp: split_beta Let_def split: sum.splits option.splits)

lemma move_directory_ignores_delete_failure:
  assumes "sys_rename w src_path dest_path = (Some EXDEV, w1)"
    and "copy_directory depth w1 src_path dest_path = Some (SUCCESS, w2)"
    and "\<not> isl (fst (sys_opendir w2 src_path))"
    and "move_directory depth w src_path dest_path = Some (r, w')"
  shows "r = SUCCESS"
proof -
  from assms(1,2,4) obtain r2 w3 where rd: "remove_directory depth w2 src_path = Some (r2, w3)"
    by (cases "remove_directory depth w2 src_path") (auto simp: move_directory_def)
  from remove_directory_result [OF rd] assms(3) have "r2 = SUCCESS" by simp
  with assms(1,2,4) rd show ?thesis by (simp add: move_directory_def)
qed

lemma move_file_reports_delete_failure:
  assumes "sys_rename w src_path dest_path = (Some EXDEV, w1)"
    and "copy_file w1 src_path dest_path = Some (SUCCESS, w2)"
    and "compare_files w2 src_path dest_path = (SUCCESS, w3)"
    and "sys_unlink w3 src_path = (Some e, w4)"
  shows "move_file w src_path dest_path = Some (ERROR_MOVE_FAILED, w4)" "fs w4 = fs w3"
  using assms sys_unlink_failed [of w3 src_path] by (simp_all add: move_file_def)

text \<open>
  Claim C4 does not hold for the code in the directory case. \<open>remove_directory\<close>
  ignores the results of \<open>unlink\<close>, of \<open>rmdir\<close> and of its own recursive calls, and
  returns \<open>SUCCESS\<close> whenever the directory could be opened. So when the directory
  \<open>/s\<close> is moved to the other device and the \<open>unlink\<close> of \<open>/s/n\<close> fails (and then
  the \<open>rmdir\<close> of the non-empty \<open>/s\<close>), \<open>move_directory\<close> returns \<open>SUCCESS\<close>,
  with the data at both locations.
\<close>

theorem move_directory_hides_delete_failure:
  "returned (move_directory (Suc 0) demo_unlink_fails ''/s'' ''/mnt/t'') = Some SUCCESS
   \<and> final_fs (move_directory (Suc 0) demo_unlink_fails ''/s'' ''/mnt/t'') [''s'', ''n'']
       = Some (File [5, 6] 420)
   \<and> final_fs (move_directory (Suc 0) demo_unlink_fails ''/s'' ''/mnt/t'') [''s'']
       = Some (Dir 493 1 [''n''])
   \<and> final_fs (move_directory (Suc 0) demo_unlink_fails ''/s'' ''/mnt/t'')
         [''mnt'', ''t'', ''n''] = Some (File [5, 6] 420)
   \<and> drop 15 (final_trace (move_directory (Suc 0) demo_unlink_fails ''/s'' ''/mnt/t''))
       = [(COpendir ''/s'', 0), (CStat ''/s/n'', 0), (CUnlink ''/s/n'', -1),
          (CRmdir ''/s'', -1)]"
  by (simp add: run_defs)


subsection \<open>Creating a directory that exists\<close>

lemma path_exists_found:
  assumes "faults w Stat = []" "namei w False p = Inr k" "fs w k = Some n"
  shows "path_exists w p = (True, log (CStat p) 0 w)"
  using sys_stat_found [OF assms] by (simp add: path_exists_def)

lemma create_prefixes_existing:
  assumes "namei w False tmp = Inr k" "faults w Stat = []"
    and "\<forall>i\<in>set is. 0 < i \<and> i < length tmp"
  shows "\<exists>w' evs. create_prefixes w tmp is = (SUCCESS, w') \<and> fs w' = fs w \<and> env w' = env w
           \<and> faults w' = faults w \<and> trace w' = trace w @ evs
           \<and> (\<forall>e\<in>set evs. \<exists>q. e = (CStat q, 0))"
  using assms
proof (induction "is" arbitrary: w)
  case Nil
  then show ?case by simp
next
  case (Cons i "is")
  show ?case
  proof (cases "tmp ! i = CHR ''/''")
    case False
    with Cons.IH [OF Cons.prems(1,2)] Cons.prems(3) show ?thesis by simp
  next
    case True
    from namei_prefix [OF Cons.prems(1) _ _ True] Cons.prems(3)
    obtain k1 m d es where k1: "namei w False (take i tmp) = Inr k1"
      and d: "fs w k1 = Some (Dir m d es)" by auto
    have pe: "path_exists w (take i tmp) = (True, log (CStat (take i tmp)) 0 w)"
      using path_exists_found [OF Cons.prems(2) k1 d] .
    define v where "v = log (CStat (take i tmp)) 0 w"
    have v1: "namei v False tmp = Inr k" using Cons.prems(1) by (simp add: v_def)
    have v: "faults v Stat = []" "fs v = fs w" "env v = env w"
      "faults v = faults w" "trace v = trace w @ [(CStat (take i tmp), 0)]"
      using Cons.prems(2) by (simp_all add: v_def log_def env_def)
    from Cons.IH [OF v1 v(1)] Cons.prems(3) obtain w' evs where
      w': "create_prefixes v tmp is = (SUCCESS, w')" "fs w' = fs v" "env w' = env v"
        "faults w' = faults v" "trace w' = trace v @ evs"
        "\<forall>e\<in>set evs. \<exists>q. e = (CStat q, 0)"
      by auto
    have cp: "create_prefixes w tmp (i # is) = (SUCCESS, w')"
      using True pe w'(1) by (simp add: v_def)
    have tr: "trace w' = trace w @ ((CStat (take i tmp), 0) # evs)"
      using w'(5) v(5) by simp
    have "\<forall>e\<in>set ((CStat (take i tmp), 0) # evs). \<exists>q. e = (CStat q, 0)"
      using w'(6) by simp
    with cp tr w'(2,3,4) v(2,3,4) show ?thesis by metis
  qed
qed

text \<open>
  On every path other than \<open>/\<close> that resolves to an existing directory, and when
  \<open>stat\<close> does not fail, \<open>create_directory\<close> returns \<open>SUCCESS\<close>, leaves the file system as it
  is, and calls nothing but \<open>stat\<close>.
\<close>

lemma create_directory_existing:
  assumes "namei w False p = Inr k" "fs w k = Some (Dir m d es)" "faults w Stat = []"
    and "p \<noteq> ''/''"
  shows "\<exists>w' evs. create_directory w p = Some (SUCCESS, w') \<and> fs w' = fs w
           \<and> trace w' = trace w @ evs \<and> (\<forall>e\<in>set evs. \<exists>q. e = (CStat q, 0))"
proof -
  have len: "length p < MAX_PATH" using assms(1) by (rule namei_Inr_length)
  have ne: "p \<noteq> []" using assms(1) by (auto simp: namei_def)
  have tk: "take (MAX_PATH - 1) p = p" using len by simp
  define tmp where "tmp = (if last p = CHR ''/'' then butlast p else p)"
  have tne: "tmp \<noteq> []"
  proof (cases "last p = CHR ''/''")
    case True
    with ne assms(4) have "butlast p \<noteq> []" by (cases p rule: rev_cases) auto
    with True show ?thesis by (simp add: tmp_def)
  next
    case False
    with ne show ?thesis by (simp add: tmp_def)
  qed
  have "\<exists>k' n. namei w False tmp = Inr k' \<and> fs w k' = Some n"
  proof (cases "last p = CHR ''/''")
    case False
    with assms(1,2) show ?thesis by (auto simp: tmp_def)
  next
    case True
    have t: "tmp = take (length p - 1) p" using True by (simp add: tmp_def butlast_conv_take)
    have "0 < length p - 1" using tne t by (cases "length p - 1") auto
    moreover have "length p - 1 < length p" using ne by (cases p) auto
    moreover have "p ! (length p - 1) = CHR ''/''" using True ne by (simp add: last_conv_nth)
    ultimately show ?thesis using namei_prefix [OF assms(1), of "length p - 1"] t by auto
  qed
  then obtain k' n where k': "namei w False tmp = Inr k'" "fs w k' = Some n" by blast
  have "\<forall>i\<in>set [1..<length tmp]. 0 < i \<and> i < length tmp" by auto
  from create_prefixes_existing [OF k'(1) assms(3) this] obtain w1 evs where
    w1: "create_prefixes w tmp [1..<length tmp] = (SUCCESS, w1)" "fs w1 = fs w" "env w1 = env w"
      "faults w1 = faults w" "trace w1 = trace w @ evs" "\<forall>e\<in>set evs. \<exists>q. e = (CStat q, 0)"
    by blast
  have n1: "namei w1 False tmp = Inr k'" using namei_same [OF w1(2,3)] k'(1) by simp
  have pe: "path_exists w1 tmp = (True, log (CStat tmp) 0 w1)"
    using path_exists_found [OF _ n1] w1(2,4) k'(2) assms(3) by simp
  have cd: "create_directory w p = Some (SUCCESS, log (CStat tmp) 0 w1)"
    using tk tne ne w1(1) pe unfolding create_directory_def tmp_def [symmetric]
    by (simp add: Let_def tmp_def [symmetric])
  have "fs (log (CStat tmp) 0 w1) = fs w" using w1(2) by (simp add: log_def)
  moreover have "trace (log (CStat tmp) 0 w1) = trace w @ (evs @ [(CStat tmp, 0)])"
    using w1(5) by (simp add: log_def)
  moreover have "\<forall>e\<in>set (evs @ [(CStat tmp, 0)]). \<exists>q. e = (CStat q, 0)"
    using w1(6) by auto
  ultimately show ?thesis using cd by blast
qed

text \<open>
  Claim C10 does not hold for the code. \<open>create_directory\<close> strips one trailing slash
  from its copy of the path, which turns \<open>/\<close> into the empty string; \<open>stat\<close> and then
  \<open>mkdir\<close> of the empty string fail, and the result is \<open>ERROR_DIR_CREATE\<close> although
  \<open>/\<close> is an existing directory. \<open>copy_directory\<close> to \<open>/\<close> fails in the same way.
\<close>

theorem create_directory_root_fails:
  "namei demo False ''/'' = Inr []
   \<and> fs demo [] = Some (Dir 493 1 [''a'', ''s'', ''mnt''])
   \<and> create_directory demo ''/''
       = Some (ERROR_DIR_CREATE, log (CMkdir []) (-1) (log (CStat []) (-1) demo))
   \<and> returned (copy_directory (Suc 0) demo ''/s'' ''/'') = Some ERROR_DIR_CREATE"
  by (simp add: run_defs)

end
